theory Spec2Isabelle
  imports Complex_Main "HOL-Library.Word" "HOL-Library.AList"
begin

unbundle bit_operations_syntax

section \<open>JavaScript values\<close>

text \<open>
  A JavaScript string is a sequence of 16-bit UTF-16 code units; a \<open>Uint8Array\<close> is a
  sequence of bytes. A string is falsy exactly when it is empty.
\<close>

type_synonym cu = "16 word"
type_synonym jsstring = "cu list"
type_synonym byte = "8 word"
type_synonym bytes = "byte list"

text \<open>An ASCII literal as a JavaScript string.\<close>

definition js :: "string \<Rightarrow> jsstring" where
  "js s = map (\<lambda>c. of_nat (of_char c)) s"

text \<open>
  Storing a number into a \<open>Uint8Array\<close> keeps it modulo 256; \<open>String.fromCharCode\<close>
  keeps it modulo 65536.
\<close>

definition to_byte :: "nat \<Rightarrow> byte" where
  "to_byte n = of_nat n"

definition to_cu :: "nat \<Rightarrow> cu" where
  "to_cu n = of_nat n"

definition is_high_surrogate :: "cu \<Rightarrow> bool" where
  "is_high_surrogate c = (0xD800 \<le> unat c \<and> unat c \<le> 0xDBFF)"

definition is_low_surrogate :: "cu \<Rightarrow> bool" where
  "is_low_surrogate c = (0xDC00 \<le> unat c \<and> unat c \<le> 0xDFFF)"

definition is_surrogate :: "cu \<Rightarrow> bool" where
  "is_surrogate c = (is_high_surrogate c \<or> is_low_surrogate c)"

section \<open>AppState: the store (core.js)\<close>

text \<open>
  A plain object used as a dictionary is the association list of its own properties,
  with distinct keys, in insertion order: \<open>map_of\<close> reads an own property,
  \<open>AList.update\<close> assigns one (in place when it is there, appended when it is not),
  \<open>AList.delete\<close> is \<open>delete obj[k]\<close>. Identifiers (conversation, user and message ids)
  are strings that are only compared.
\<close>

type_synonym 'v obj = "(string \<times> 'v) list"

text \<open>
  Every dictionary of the store is made by an object literal (or by spreading one), so
  its prototype is \<open>Object.prototype\<close>. Reading \<open>obj[k]\<close> when \<open>obj\<close> has no own property
  \<open>k\<close> gives \<open>undefined\<close>, unless \<open>k\<close> names a property of \<open>Object.prototype\<close>: then it
  gives the inherited value, which is a built-in function, and for \<open>__proto__\<close> the
  prototype object itself. These are the names of the properties of \<open>Object.prototype\<close>.
\<close>

definition object_prototype_names :: "string list" where
  "object_prototype_names =
     [''constructor'', ''__defineGetter__'', ''__defineSetter__'', ''hasOwnProperty'',
      ''__lookupGetter__'', ''__lookupSetter__'', ''isPrototypeOf'', ''propertyIsEnumerable'',
      ''toString'', ''valueOf'', ''__proto__'', ''toLocaleString'']"

datatype 'v property = Absent | Own 'v | Inherited

definition get_prop :: "'v obj \<Rightarrow> string \<Rightarrow> 'v property" where
  "get_prop ob k =
     (case map_of ob k of
        Some v \<Rightarrow> Own v
      | None \<Rightarrow> if k \<in> set object_prototype_names then Inherited else Absent)"

text \<open>
  \<open>obj[k] = v\<close> where \<open>v\<close> is a primitive value or what \<open>obj[k]\<close> has just returned.
  \<open>__proto__\<close> is an accessor of the prototype: unless \<open>obj\<close> has an own property of
  that name, the assignment runs its setter, which ignores a primitive and, given the
  prototype that \<open>obj\<close> already has, changes nothing; no own property is created. Under
  every other name the assignment writes an own property.
\<close>

definition set_prop :: "string \<Rightarrow> 'v \<Rightarrow> 'v obj \<Rightarrow> 'v obj" where
  "set_prop k v ob =
     (if k = ''__proto__'' \<and> map_of ob k = None then ob else AList.update k v ob)"

text \<open>An entry of \<open>passkeyAttempts\<close>: \<open>{ count, lockedUntil }\<close>, \<open>lockedUntil\<close> being \<open>null\<close> at first.\<close>

record attempt =
  count :: nat
  lockedUntil :: "int option"

text \<open>
  What \<open>passkeyAttempts\<close> can hold under a key: an entry, or a built-in object of
  \<open>Object.prototype\<close> that \<open>recordFailedAttempt\<close> read through the prototype and stored
  back. On a built-in object \<open>count\<close> is \<open>undefined\<close>, and \<open>NaN\<close> once it was
  incremented; \<open>lockedUntil\<close> is \<open>undefined\<close>.
\<close>

datatype attempt_entry = Entry attempt | Builtin

text \<open>
  A value of \<open>unreadCounts\<close> and of \<open>totalUnread\<close>: a number, or the string that \<open>+\<close>
  makes of a built-in object and a number (the source text of the function followed
  by digits). Such a string is not a numeral, and neither is a string that \<open>+\<close> makes
  of it and anything else; its characters are not kept.
\<close>

datatype count_value = Num int | NotNumeric

text \<open>A row of the \<open>messages\<close> table as the change feed delivers it.\<close>

record message =
  msg_id :: string
  conversation_id :: string
  sender_id :: string
  idempotency_key :: "string option"
  ciphertext :: "jsstring option"
  iv :: "jsstring option"

text \<open>An entry of the offline queue: the payload of \<open>queueMessage\<close> and \<open>_queuedAt\<close>.\<close>

record outbox_entry =
  conversationId :: string
  userId :: string
  out_ciphertext :: jsstring
  out_iv :: jsstring
  idempotencyKey :: string
  replyToId :: "string option"
  messageType :: "string option"
  queuedAt :: "int option"

text \<open>
  The state object of \<open>INITIAL_STATE\<close>, one field per top-level key. \<open>'a\<close> stands for the
  rows the backend returns (user, session, profile, contacts, conversations), \<open>'k\<close> for
  a \<open>CryptoKey\<close>; a derived key that was overwritten with \<open>null\<close> is \<open>None\<close>.
\<close>

record ('a, 'k) app_state =
  user :: "'a option"
  session :: "'a option"
  profile :: "'a option"
  contacts :: "'a list"
  contactRequests :: "'a list"
  blockedUsers :: "'a list"
  conversations :: "'a list"
  activeConversationId :: "string option"
  messages :: "message list obj"
  messagePagination :: "(bool \<times> bool) obj"
  passkeys :: "jsstring obj"
  derivedKeys :: "'k option obj"
  passkeySalts :: "jsstring obj"
  passkeyAttempts :: "attempt_entry obj"
  onlineUsers :: "string set"
  typingUsers :: "string set obj"
  lastSeen :: "string obj"
  theme :: string
  sidebarOpen :: bool
  activeView :: string
  connectionStatus :: string
  unreadCounts :: "count_value obj"
  totalUnread :: count_value
  messageQueue :: "outbox_entry list"
  initialized :: bool

text \<open>
  What \<open>INITIAL_STATE()\<close> reads from the browser when it is called:
  \<open>localStorage.getItem('securechat_theme')\<close> (\<open>null\<close> is \<open>None\<close>) and \<open>window.innerWidth\<close>.
\<close>

record browser_env =
  stored_theme :: "string option"
  innerWidth :: int

definition INITIAL_STATE :: "browser_env \<Rightarrow> ('a, 'k) app_state" where
  "INITIAL_STATE env =
     \<lparr>user = None, session = None, profile = None,
      contacts = [], contactRequests = [], blockedUsers = [],
      conversations = [], activeConversationId = None,
      messages = [], messagePagination = [],
      passkeys = [], derivedKeys = [], passkeySalts = [], passkeyAttempts = [],
      onlineUsers = {}, typingUsers = [], lastSeen = [],
      theme = (case stored_theme env of
                 None \<Rightarrow> ''dark''
               | Some t \<Rightarrow> if t = [] then ''dark'' else t),
      sidebarOpen = (innerWidth env > 768),
      activeView = ''chat'',
      connectionStatus = ''connected'',
      unreadCounts = [], totalUnread = Num 0,
      messageQueue = [],
      initialized = False\<rparr>"

subsection \<open>reset\<close>

text \<open>
  \<open>for (const k of Object.keys(ob)) { ob[k] = z; delete ob[k]; }\<close>: the keys are listed
  once, then every one is overwritten with the blank value \<open>z\<close> and deleted.
\<close>

fun zero_keys :: "'v \<Rightarrow> string list \<Rightarrow> 'v obj \<Rightarrow> 'v obj" where
  "zero_keys z [] ob = ob"
| "zero_keys z (k # ks) ob = zero_keys z ks (AList.delete k (AList.update k z ob))"

definition zero_out :: "'v \<Rightarrow> 'v obj \<Rightarrow> 'v obj" where
  "zero_out z ob = zero_keys z (map fst ob) ob"

text \<open>
  \<open>reset\<close> empties the two key objects of the current state in place, builds a fresh
  state and puts the old theme into it. The result is the new state together with the
  \<open>passkeys\<close> and \<open>derivedKeys\<close> objects of the discarded state as the loops left them.
\<close>

definition reset ::
  "browser_env \<Rightarrow> ('a, 'k) app_state \<Rightarrow> ('a, 'k) app_state \<times> jsstring obj \<times> 'k option obj" where
  "reset env st =
     (let pk = zero_out [] (passkeys st);
          dk = zero_out None (derivedKeys st);
          preservedTheme = theme st;
          st' = INITIAL_STATE env
      in (st'\<lparr>theme := preservedTheme\<rparr>, pk, dk))"


subsection \<open>Passkey lockout (CryptoEngine)\<close>

definition PASSKEY_LOCKOUT_ATTEMPTS :: nat where
  "PASSKEY_LOCKOUT_ATTEMPTS = 5"

definition PASSKEY_LOCKOUT_DURATION_MS :: int where
  "PASSKEY_LOCKOUT_DURATION_MS = 60000"

text \<open>\<open>Date.now() > a.lockedUntil\<close> converts \<open>null\<close> to 0.\<close>

definition to_number :: "int option \<Rightarrow> int" where
  "to_number v = (case v of None \<Rightarrow> 0 | Some n \<Rightarrow> n)"

text \<open>
  \<open>isLockedOut\<close> at clock reading \<open>now\<close>: the answer and the state it leaves. A built-in
  object is truthy, and both comparisons, \<open>a.count < 5\<close> and \<open>Date.now() > a.lockedUntil\<close>,
  are false on \<open>undefined\<close> and on \<open>NaN\<close>: the answer is \<open>true\<close>.
\<close>

definition isLockedOut ::
  "int \<Rightarrow> string \<Rightarrow> ('a, 'k) app_state \<Rightarrow> bool \<times> ('a, 'k) app_state" where
  "isLockedOut now conv st =
     (case get_prop (passkeyAttempts st) conv of
        Absent \<Rightarrow> (False, st)
      | Inherited \<Rightarrow> (True, st)
      | Own Builtin \<Rightarrow> (True, st)
      | Own (Entry a) \<Rightarrow>
          if count a < PASSKEY_LOCKOUT_ATTEMPTS then (False, st)
          else if now > to_number (lockedUntil a)
          then (False, st\<lparr>passkeyAttempts := AList.delete conv (passkeyAttempts st)\<rparr>)
          else (True, st))"

text \<open>
  \<open>recordFailedAttempt\<close>: \<open>all[id] ?? { count: 0, lockedUntil: null }\<close> is the entry, a
  new one, or the built-in object. \<open>count++\<close> on a built-in object leaves \<open>NaN\<close>, which
  is not \<open>>= 5\<close>, so no \<open>lockedUntil\<close> is set; the object is stored under the key and
  returned.
\<close>

definition count_failure :: "int \<Rightarrow> attempt \<Rightarrow> attempt" where
  "count_failure now cur0 =
     (let cur1 = cur0\<lparr>count := count cur0 + 1\<rparr>
      in if count cur1 \<ge> PASSKEY_LOCKOUT_ATTEMPTS
         then cur1\<lparr>lockedUntil := Some (now + PASSKEY_LOCKOUT_DURATION_MS)\<rparr>
         else cur1)"

definition recordFailedAttempt ::
  "int \<Rightarrow> string \<Rightarrow> ('a, 'k) app_state \<Rightarrow> attempt_entry \<times> ('a, 'k) app_state" where
  "recordFailedAttempt now conv st =
     (let cur = (case get_prop (passkeyAttempts st) conv of
                   Absent \<Rightarrow> Entry (count_failure now \<lparr>count = 0, lockedUntil = None\<rparr>)
                 | Own (Entry a) \<Rightarrow> Entry (count_failure now a)
                 | Own Builtin \<Rightarrow> Builtin
                 | Inherited \<Rightarrow> Builtin)
      in (cur, st\<lparr>passkeyAttempts := set_prop conv cur (passkeyAttempts st)\<rparr>))"

definition resetAttempts :: "string \<Rightarrow> ('a, 'k) app_state \<Rightarrow> ('a, 'k) app_state" where
  "resetAttempts conv st = st\<lparr>passkeyAttempts := AList.delete conv (passkeyAttempts st)\<rparr>"

text \<open>Failed attempts recorded one after the other, at the clock readings of the list.\<close>

fun record_failures :: "int list \<Rightarrow> string \<Rightarrow> ('a, 'k) app_state \<Rightarrow> ('a, 'k) app_state" where
  "record_failures [] conv st = st"
| "record_failures (t # ts) conv st = record_failures ts conv (snd (recordFailedAttempt t conv st))"


section \<open>RealtimeManager (services.js)\<close>

text \<open>
  The fields of \<open>_RealtimeManager\<close> the message handlers read: \<open>_activeConversationId\<close>
  and \<open>_userId\<close>, both \<open>null\<close> at first. \<open>document.visibilityState === 'visible'\<close> is
  the parameter \<open>visible\<close> of the handlers.
\<close>

record realtime =
  rt_activeConversationId :: "string option"
  rt_userId :: "string option"

text \<open>What a handler emits on the bus or asks of the backend, in order.\<close>

datatype effect =
    SentConfirmed message
  | MessageReceived message string
  | MarkMessagesRead string "string option"
  | NotificationMessage message string
  | ConversationsUpdated string
  | ConversationEntered string
  | ConversationLeft string

subsection \<open>_onMessageInsert\<close>

text \<open>\<open>null\<close>, \<open>undefined\<close> and the empty string are falsy.\<close>

definition truthy :: "string option \<Rightarrow> bool" where
  "truthy v = (case v of None \<Rightarrow> False | Some s \<Rightarrow> s \<noteq> [])"

text \<open>
  \<open>AppState.get('messages')[convId] ?? []\<close>: the list stored under the key, the empty
  list, or (\<open>None\<close>) an inherited built-in object, which is not an array.
\<close>

definition messages_of :: "string \<Rightarrow> ('a, 'k) app_state \<Rightarrow> message list option" where
  "messages_of convId st =
     (case get_prop (messages st) convId of
        Absent \<Rightarrow> Some []
      | Own ms \<Rightarrow> Some ms
      | Inherited \<Rightarrow> None)"

datatype js_error = TypeError

text \<open>
  \<open>_onMessageInsert\<close>. On a built-in object \<open>messages.some\<close> is \<open>undefined\<close>, so the
  first of the two calls of \<open>messages.some(...)\<close> that is reached throws a \<open>TypeError\<close>,
  before anything is stored or emitted. \<open>AppState.merge\<close> assigns the new list under
  \<open>convId\<close>; it is reached only when the key is an own property or names no inherited
  one.
\<close>

definition onMessageInsert ::
  "realtime \<Rightarrow> bool \<Rightarrow> message option \<Rightarrow> ('a, 'k) app_state \<Rightarrow>
     js_error + ('a, 'k) app_state \<times> effect list" where
  "onMessageInsert rt visible row st =
     (case row of
        None \<Rightarrow> Inr (st, [])
      | Some msg \<Rightarrow>
          let convId = conversation_id msg in
          if Some (sender_id msg) = rt_userId rt then Inr (st, [SentConfirmed msg])
          else
            (case messages_of convId st of
               None \<Rightarrow> Inl TypeError
             | Some msgs \<Rightarrow>
                 if truthy (idempotency_key msg) \<and>
                    list_ex (\<lambda>m. truthy (idempotency_key m) \<and> idempotency_key m = idempotency_key msg) msgs
                 then Inr (st, [])
                 else if list_ex (\<lambda>m. msg_id m = msg_id msg) msgs then Inr (st, [])
                 else
                   Inr (st\<lparr>messages := AList.update convId (msgs @ [msg]) (messages st)\<rparr>,
                        (if Some convId = rt_activeConversationId rt \<and> visible
                         then [MarkMessagesRead convId (rt_userId rt)] else [])
                        @ [MessageReceived msg convId])))"

text \<open>
  \<open>_handleMessagePayload\<close> on an \<open>INSERT\<close> event with the new row \<open>row\<close>: it calls
  \<open>_onMessageInsert\<close> inside \<open>try\<close>, and its \<open>catch\<close> only logs.
\<close>

definition handleMessagePayload ::
  "realtime \<Rightarrow> bool \<Rightarrow> message option \<Rightarrow> ('a, 'k) app_state \<Rightarrow> ('a, 'k) app_state \<times> effect list" where
  "handleMessagePayload rt visible row st =
     (case onMessageInsert rt visible row st of
        Inl e \<Rightarrow> (st, [])
      | Inr r \<Rightarrow> r)"

text \<open>
  Two rows are the same message for the handler when they share the id, or a truthy
  idempotency key.
\<close>

definition same_message :: "message \<Rightarrow> message \<Rightarrow> bool" where
  "same_message msg m =
     (msg_id m = msg_id msg \<or>
      (truthy (idempotency_key msg) \<and> truthy (idempotency_key m) \<and>
       idempotency_key m = idempotency_key msg))"

definition copies :: "message \<Rightarrow> message list \<Rightarrow> nat" where
  "copies msg ms = length (filter (same_message msg) ms)"

subsection \<open>Unread counters\<close>

text \<open>
  \<open>a + b\<close> on these values: the sum of two numbers; with a string on either side, the
  concatenation, a string that is not a numeral.
\<close>

definition js_add :: "count_value \<Rightarrow> count_value \<Rightarrow> count_value" where
  "js_add a b =
     (case (a, b) of
        (Num x, Num y) \<Rightarrow> Num (x + y)
      | _ \<Rightarrow> NotNumeric)"


text \<open>\<open>Object.values(counts).reduce((a, b) => a + b, 0)\<close>\<close>

definition values_sum :: "count_value obj \<Rightarrow> count_value" where
  "values_sum counts = foldl (\<lambda>a b. js_add a b) (Num 0) (map snd counts)"


text \<open>
  \<open>_handleGlobalMessageInsert\<close>. \<open>(counts[convId] ?? 0) + 1\<close> is a string when
  \<open>counts[convId]\<close> is an inherited built-in object.
\<close>

definition handleGlobalMessageInsert ::
  "realtime \<Rightarrow> bool \<Rightarrow> message option \<Rightarrow> ('a, 'k) app_state \<Rightarrow> ('a, 'k) app_state \<times> effect list" where
  "handleGlobalMessageInsert rt visible row st =
     (case row of
        None \<Rightarrow> (st, [])
      | Some msg \<Rightarrow>
          if Some (sender_id msg) = rt_userId rt then (st, [])
          else
            let convId = conversation_id msg in
            if Some convId \<noteq> rt_activeConversationId rt \<or> \<not> visible
            then
              let c = (case get_prop (unreadCounts st) convId of
                         Absent \<Rightarrow> js_add (Num 0) (Num 1)
                       | Own v \<Rightarrow> js_add v (Num 1)
                       | Inherited \<Rightarrow> NotNumeric);
                  st1 = st\<lparr>unreadCounts := set_prop convId c (unreadCounts st)\<rparr>;
                  total = values_sum (unreadCounts st1)
              in (st1\<lparr>totalUnread := total\<rparr>,
                  [NotificationMessage msg convId, ConversationsUpdated convId])
            else (st, [ConversationsUpdated convId]))"









section \<open>ConnectivityManager (services.js)\<close>

subsection \<open>flushQueue\<close>

definition EXPIRY_MS :: int where
  "EXPIRY_MS = 5 * 60 * 1000"

text \<open>\<open>msg._queuedAt || 0\<close>\<close>

definition queuedAt_or_0 :: "outbox_entry \<Rightarrow> int" where
  "queuedAt_or_0 msg = (case queuedAt msg of None \<Rightarrow> 0 | Some t \<Rightarrow> t)"

text \<open>
  The loop of \<open>flushQueue\<close> reads the clock once per entry and awaits one send per entry
  that has not expired. \<open>clock i\<close> is the reading of \<open>Date.now()\<close> and \<open>send_ok i\<close> tells
  whether \<open>sendMessage\<close> resolved, at the entry in position \<open>i\<close> of the queue. The
  accumulator holds the counters, the entries kept, and the entries handed to
  \<open>sendMessage\<close> in the order of the calls.
\<close>

record flush_acc =
  sent :: nat
  failed :: nat
  remaining :: "outbox_entry list"
  attempted :: "outbox_entry list"

fun flush_loop ::
  "(nat \<Rightarrow> int) \<Rightarrow> (nat \<Rightarrow> bool) \<Rightarrow> nat \<Rightarrow> outbox_entry list \<Rightarrow> flush_acc \<Rightarrow> flush_acc" where
  "flush_loop clock send_ok i [] acc = acc"
| "flush_loop clock send_ok i (msg # rest) acc =
     (if clock i - queuedAt_or_0 msg > EXPIRY_MS
      then flush_loop clock send_ok (Suc i) rest (acc\<lparr>failed := failed acc + 1\<rparr>)
      else if send_ok i
      then flush_loop clock send_ok (Suc i) rest
             (acc\<lparr>sent := sent acc + 1, attempted := attempted acc @ [msg]\<rparr>)
      else flush_loop clock send_ok (Suc i) rest
             (acc\<lparr>remaining := remaining acc @ [msg], failed := failed acc + 1,
                  attempted := attempted acc @ [msg]\<rparr>))"

record flush_result =
  res_sent :: nat
  res_failed :: nat
  res_remaining :: nat

text \<open>The returned counts, the state after the flush, and the sends made.\<close>

definition flushQueue ::
  "(nat \<Rightarrow> int) \<Rightarrow> (nat \<Rightarrow> bool) \<Rightarrow> ('a, 'k) app_state \<Rightarrow>
     flush_result \<times> ('a, 'k) app_state \<times> outbox_entry list" where
  "flushQueue clock send_ok st =
     (let queue = messageQueue st in
      if length queue = 0 then (\<lparr>res_sent = 0, res_failed = 0, res_remaining = 0\<rparr>, st, [])
      else
        let acc = flush_loop clock send_ok 0 queue
                    \<lparr>sent = 0, failed = 0, remaining = [], attempted = []\<rparr>
        in (\<lparr>res_sent = sent acc, res_failed = failed acc, res_remaining = length (remaining acc)\<rparr>,
            st\<lparr>messageQueue := remaining acc\<rparr>,
            attempted acc))"

text \<open>The entries of a queue with their positions, and what the loop sees at each.\<close>

definition expired_at :: "(nat \<Rightarrow> int) \<Rightarrow> nat \<times> outbox_entry \<Rightarrow> bool" where
  "expired_at clock p = (clock (fst p) - queuedAt_or_0 (snd p) > EXPIRY_MS)"

subsection \<open>Reconnection with back-off\<close>



















section \<open>CryptoEngine.measureStrength (core.js)\<close>

text \<open>
  The regular expressions of \<open>measureStrength\<close> carry no \<open>u\<close> flag, so they work on code
  units: \<open>/[a-z]/\<close>, \<open>/[A-Z]/\<close>, \<open>/[0-9]/\<close>, \<open>/[^a-zA-Z0-9]/\<close> ask for one code unit of
  the class; \<open>/(.)\1{2,}/\<close> asks for three equal consecutive code units, where \<open>.\<close> does
  not match the line terminators LF, CR, U+2028 and U+2029.
\<close>

definition is_lower :: "cu \<Rightarrow> bool" where
  "is_lower c = (0x61 \<le> c \<and> c \<le> 0x7A)"

definition is_upper :: "cu \<Rightarrow> bool" where
  "is_upper c = (0x41 \<le> c \<and> c \<le> 0x5A)"

definition is_digit :: "cu \<Rightarrow> bool" where
  "is_digit c = (0x30 \<le> c \<and> c \<le> 0x39)"

definition is_other :: "cu \<Rightarrow> bool" where
  "is_other c = (\<not> is_lower c \<and> \<not> is_upper c \<and> \<not> is_digit c)"

definition is_line_terminator :: "cu \<Rightarrow> bool" where
  "is_line_terminator c = (c = 0x0A \<or> c = 0x0D \<or> c = 0x2028 \<or> c = 0x2029)"

fun has_triple_repeat :: "jsstring \<Rightarrow> bool" where
  "has_triple_repeat (a # b # c # rest) =
     ((\<not> is_line_terminator a \<and> b = a \<and> c = a) \<or> has_triple_repeat (b # c # rest))"
| "has_triple_repeat _ = False"

text \<open>
  \<open>new Set(passkey)\<close> runs the string iterator, which yields code points: a high
  surrogate followed by a low surrogate is one element, any other code unit is one
  element of its own.
\<close>

fun string_iterator :: "jsstring \<Rightarrow> jsstring list" where
  "string_iterator [] = []"
| "string_iterator [a] = [[a]]"
| "string_iterator (a # b # rest) =
     (if is_high_surrogate a \<and> is_low_surrogate b
      then [a, b] # string_iterator rest
      else [a] # string_iterator (b # rest))"

definition set_size :: "jsstring \<Rightarrow> nat" where
  "set_size s = length (remdups (string_iterator s))"

text \<open>
  The result object. \<open>{ score: n, ...levels[n] }\<close> has the properties \<open>label\<close> and
  \<open>color\<close> only when \<open>levels[n]\<close> is an element of the array; an index out of range
  gives \<open>undefined\<close>, whose spread adds nothing (\<open>None\<close> here).
\<close>

record strength =
  score :: int
  label :: "string option"
  color :: "string option"

definition levels :: "(string \<times> string) list" where
  "levels =
     [(''Very Weak'', ''#ef4444''),
      (''Weak'', ''#f97316''),
      (''Fair'', ''#eab308''),
      (''Strong'', ''#22c55e''),
      (''Very Strong'', ''#06b6d4'')]"

definition array_get :: "'a list \<Rightarrow> int \<Rightarrow> 'a option" where
  "array_get xs i = (if 0 \<le> i \<and> i < int (length xs) then Some (xs ! nat i) else None)"

definition b2i :: "bool \<Rightarrow> int" where
  "b2i b = (if b then 1 else 0)"

text \<open>The tally \<open>s\<close> before it is scaled.\<close>

definition tally :: "jsstring \<Rightarrow> int" where
  "tally passkey =
     b2i (length passkey \<ge> 4) + b2i (length passkey \<ge> 8)
     + b2i (length passkey \<ge> 12) + b2i (length passkey \<ge> 20)
     + b2i (list_ex is_lower passkey) + b2i (list_ex is_upper passkey)
     + b2i (list_ex is_digit passkey) + b2i (list_ex is_other passkey)
     + b2i (set_size passkey \<ge> 6) + b2i (set_size passkey \<ge> 10)
     - b2i (has_triple_repeat passkey)"

text \<open>
  \<open>Math.floor(s / 2.5)\<close> on the integer \<open>s\<close> is \<open>2 * s div 5\<close> rounded down, which is
  what \<open>div\<close> on \<open>int\<close> does.
\<close>

definition measureStrength :: "jsstring \<Rightarrow> strength" where
  "measureStrength passkey =
     (if passkey = [] then \<lparr>score = 0, label = Some '''', color = Some ''''\<rparr>
      else
        let s = tally passkey;
            n = max 0 (min 4 ((2 * s) div 5))
        in \<lparr>score = n,
            label = map_option fst (array_get levels n),
            color = map_option snd (array_get levels n)\<rparr>)"

section \<open>CryptoEngine: encoding helpers (core.js)\<close>

text \<open>
  \<open>btoa\<close> and \<open>atob\<close> are the browser's; they are written out here from their
  standard. \<open>btoa\<close> is base64 with the alphabet \<open>A-Z a-z 0-9 + /\<close> and \<open>=\<close> padding.
  \<open>b64_code n\<close> is the character code of the digit with value \<open>n\<close>.
\<close>

definition b64_code :: "nat \<Rightarrow> nat" where
  "b64_code n =
     (if n < 26 then 65 + n
      else if n < 52 then 97 + (n - 26)
      else if n < 62 then 48 + (n - 52)
      else if n = 62 then 43 else 47)"

definition b64_char :: "nat \<Rightarrow> cu" where
  "b64_char n = of_nat (b64_code n)"

definition b64_index :: "cu \<Rightarrow> nat option" where
  "b64_index c =
     (let u = unat c in
      if 65 \<le> u \<and> u \<le> 90 then Some (u - 65)
      else if 97 \<le> u \<and> u \<le> 122 then Some (u - 97 + 26)
      else if 48 \<le> u \<and> u \<le> 57 then Some (u - 48 + 52)
      else if u = 43 then Some 62
      else if u = 47 then Some 63
      else None)"

definition pad :: cu where
  "pad = 61"

fun b64_encode :: "bytes \<Rightarrow> jsstring" where
  "b64_encode [] = []"
| "b64_encode [a] =
     [b64_char (unat a div 4), b64_char (unat a mod 4 * 16), pad, pad]"
| "b64_encode [a, b] =
     [b64_char (unat a div 4), b64_char (unat a mod 4 * 16 + unat b div 16),
      b64_char (unat b mod 16 * 4), pad]"
| "b64_encode (a # b # c # rest) =
     [b64_char (unat a div 4), b64_char (unat a mod 4 * 16 + unat b div 16),
      b64_char (unat b mod 16 * 4 + unat c div 64), b64_char (unat c mod 64)]
     @ b64_encode rest"

text \<open>
  \<open>bufferToBase64\<close> turns every byte into the character with that code and calls
  \<open>btoa\<close>; the characters are below 256, so \<open>btoa\<close> does not throw.
\<close>

definition bufferToBase64 :: "bytes \<Rightarrow> jsstring" where
  "bufferToBase64 buffer = b64_encode buffer"

text \<open>
  \<open>atob\<close> is the forgiving base64 decoder: it drops ASCII whitespace, drops one or two
  trailing \<open>=\<close> when the length is a multiple of four, fails when the length is then
  1 modulo 4 or when a character is not a base64 digit, and otherwise decodes groups
  of four digits into three bytes, a last group of three digits into two bytes and of
  two digits into one byte. \<open>None\<close> is the \<open>InvalidCharacterError\<close> it throws.
\<close>

definition is_ascii_whitespace :: "cu \<Rightarrow> bool" where
  "is_ascii_whitespace c = (c = 9 \<or> c = 10 \<or> c = 12 \<or> c = 13 \<or> c = 32)"

definition strip_padding :: "jsstring \<Rightarrow> jsstring" where
  "strip_padding d =
     (if length d mod 4 = 0 \<and> d \<noteq> [] \<and> last d = pad
      then (if butlast d \<noteq> [] \<and> last (butlast d) = pad then butlast (butlast d) else butlast d)
      else d)"

fun b64_groups :: "nat list \<Rightarrow> bytes" where
  "b64_groups (a # b # c # d # rest) =
     [to_byte (a * 4 + b div 16), to_byte (b mod 16 * 16 + c div 4), to_byte (c mod 4 * 64 + d)]
     @ b64_groups rest"
| "b64_groups [a, b, c] = [to_byte (a * 4 + b div 16), to_byte (b mod 16 * 16 + c div 4)]"
| "b64_groups [a, b] = [to_byte (a * 4 + b div 16)]"
| "b64_groups _ = []"

definition forgiving_base64_decode :: "jsstring \<Rightarrow> bytes option" where
  "forgiving_base64_decode s =
     (let d = strip_padding (filter (\<lambda>c. \<not> is_ascii_whitespace c) s) in
      if length d mod 4 = 1 then None
      else map_option b64_groups (those (map b64_index d)))"

text \<open>
  \<open>base64ToBuffer\<close> calls \<open>atob\<close> and copies the character codes into a \<open>Uint8Array\<close>.
\<close>

definition base64ToBuffer :: "jsstring \<Rightarrow> bytes option" where
  "base64ToBuffer base64 = forgiving_base64_decode base64"

text \<open>The digits of the encoding of a buffer, before they become characters.\<close>

fun b64_values :: "bytes \<Rightarrow> nat list" where
  "b64_values [] = []"
| "b64_values [a] = [unat a div 4, unat a mod 4 * 16]"
| "b64_values [a, b] = [unat a div 4, unat a mod 4 * 16 + unat b div 16, unat b mod 16 * 4]"
| "b64_values (a # b # c # rest) =
     [unat a div 4, unat a mod 4 * 16 + unat b div 16,
      unat b mod 16 * 4 + unat c div 64, unat c mod 64] @ b64_values rest"

text \<open>
  \<open>encode\<close> is \<open>new TextEncoder().encode\<close>: the string is read as code points, a
  surrogate that has no partner becomes U+FFFD, and every code point is written in
  UTF-8.
\<close>

definition REPLACEMENT :: nat where
  "REPLACEMENT = 0xFFFD"

fun scalar_values :: "jsstring \<Rightarrow> nat list" where
  "scalar_values [] = []"
| "scalar_values [a] = [if is_surrogate a then REPLACEMENT else unat a]"
| "scalar_values (a # b # rest) =
     (if is_high_surrogate a \<and> is_low_surrogate b
      then (0x10000 + (unat a - 0xD800) * 0x400 + (unat b - 0xDC00)) # scalar_values rest
      else (if is_surrogate a then REPLACEMENT else unat a) # scalar_values (b # rest))"

definition utf8_bytes :: "nat \<Rightarrow> bytes" where
  "utf8_bytes cp =
     (if cp < 0x80 then [to_byte cp]
      else if cp < 0x800 then [to_byte (0xC0 + cp div 64), to_byte (0x80 + cp mod 64)]
      else if cp < 0x10000 then
        [to_byte (0xE0 + cp div 4096), to_byte (0x80 + cp div 64 mod 64),
         to_byte (0x80 + cp mod 64)]
      else
        [to_byte (0xF0 + cp div 262144), to_byte (0x80 + cp div 4096 mod 64),
         to_byte (0x80 + cp div 64 mod 64), to_byte (0x80 + cp mod 64)])"

definition encode :: "jsstring \<Rightarrow> bytes" where
  "encode str = concat (map utf8_bytes (scalar_values str))"

text \<open>
  \<open>decode\<close> is \<open>new TextDecoder().decode\<close>: the UTF-8 decoder of the Encoding standard,
  not fatal, which emits U+FFFD for every ill-formed sequence and looks again at the
  byte that broke a sequence; a byte order mark in front is dropped; the code points
  are written in UTF-16.
\<close>

record utf8_decoder =
  code_point :: nat
  bytes_seen :: nat
  bytes_needed :: nat
  lower_boundary :: nat
  upper_boundary :: nat

definition decoder_init :: utf8_decoder where
  "decoder_init = \<lparr>code_point = 0, bytes_seen = 0, bytes_needed = 0,
                    lower_boundary = 0x80, upper_boundary = 0xBF\<rparr>"

text \<open>The decoder on a byte when it needs none: what it emits and its next state.\<close>

definition lead_byte :: "nat \<Rightarrow> nat list \<times> utf8_decoder" where
  "lead_byte b =
     (if b \<le> 0x7F then ([b], decoder_init)
      else if 0xC2 \<le> b \<and> b \<le> 0xDF
      then ([], decoder_init\<lparr>bytes_needed := 1, code_point := b mod 32\<rparr>)
      else if 0xE0 \<le> b \<and> b \<le> 0xEF
      then ([], decoder_init\<lparr>bytes_needed := 2, code_point := b mod 16,
                lower_boundary := (if b = 0xE0 then 0xA0 else 0x80),
                upper_boundary := (if b = 0xED then 0x9F else 0xBF)\<rparr>)
      else if 0xF0 \<le> b \<and> b \<le> 0xF4
      then ([], decoder_init\<lparr>bytes_needed := 3, code_point := b mod 8,
                lower_boundary := (if b = 0xF0 then 0x90 else 0x80),
                upper_boundary := (if b = 0xF4 then 0x8F else 0xBF)\<rparr>)
      else ([REPLACEMENT], decoder_init))"

fun utf8_decode :: "utf8_decoder \<Rightarrow> bytes \<Rightarrow> nat list" where
  "utf8_decode d [] = (if bytes_needed d \<noteq> 0 then [REPLACEMENT] else [])"
| "utf8_decode d (byte # rest) =
     (let b = unat byte in
      if bytes_needed d = 0
      then fst (lead_byte b) @ utf8_decode (snd (lead_byte b)) rest
      else if \<not> (lower_boundary d \<le> b \<and> b \<le> upper_boundary d)
      then REPLACEMENT # fst (lead_byte b) @ utf8_decode (snd (lead_byte b)) rest
      else
        let cp = code_point d * 64 + b mod 64 in
        if bytes_seen d + 1 \<noteq> bytes_needed d
        then utf8_decode (d\<lparr>code_point := cp, bytes_seen := bytes_seen d + 1,
                             lower_boundary := 0x80, upper_boundary := 0xBF\<rparr>) rest
        else cp # utf8_decode decoder_init rest)"

definition strip_bom :: "nat list \<Rightarrow> nat list" where
  "strip_bom cps = (case cps of [] \<Rightarrow> [] | c # rest \<Rightarrow> if c = 0xFEFF then rest else cps)"

definition utf16_units :: "nat \<Rightarrow> jsstring" where
  "utf16_units cp =
     (if cp < 0x10000 then [to_cu cp]
      else [to_cu (0xD800 + (cp - 0x10000) div 0x400), to_cu (0xDC00 + (cp - 0x10000) mod 0x400)])"

definition decode :: "bytes \<Rightarrow> jsstring" where
  "decode buf = concat (map utf16_units (strip_bom (utf8_decode decoder_init buf)))"

text \<open>A string is well formed when every surrogate in it is half of a pair.\<close>

fun well_formed :: "jsstring \<Rightarrow> bool" where
  "well_formed [] = True"
| "well_formed [a] = (\<not> is_surrogate a)"
| "well_formed (a # b # rest) =
     (if is_high_surrogate a \<and> is_low_surrogate b then well_formed rest
      else \<not> is_surrogate a \<and> well_formed (b # rest))"

text \<open>A Unicode scalar value: a code point that is not a surrogate.\<close>

definition scalar :: "nat \<Rightarrow> bool" where
  "scalar cp = (cp < 0x110000 \<and> (cp < 0xD800 \<or> 0xDFFF < cp))"

section \<open>CryptoEngine: encrypt and decrypt (core.js)\<close>

text \<open>
  \<open>crypto.subtle\<close> is the browser's. Its three operations are parameters of the
  model: PBKDF2 key derivation from the bytes of the passkey and the salt, AES-GCM
  encryption and AES-GCM decryption under a key and an IV; decryption gives \<open>None\<close>
  when it rejects (\<open>OperationError\<close>). \<open>'k\<close> is the type of a \<open>CryptoKey\<close>.
\<close>

record 'k webcrypto =
  pbkdf2 :: "bytes \<Rightarrow> bytes \<Rightarrow> 'k"
  aes_gcm_encrypt :: "'k \<Rightarrow> bytes \<Rightarrow> bytes \<Rightarrow> bytes"
  aes_gcm_decrypt :: "'k \<Rightarrow> bytes \<Rightarrow> bytes \<Rightarrow> bytes option"

text \<open>
  What AES-GCM guarantees and the theorems on encryption assume: decrypting under the
  key and IV of the encryption gives the plaintext back, and the ciphertext is the
  length of the plaintext plus the 16 bytes of the tag.
\<close>

definition aead_correct :: "'k webcrypto \<Rightarrow> bool" where
  "aead_correct P =
     (\<forall>k nonce p. aes_gcm_decrypt P k nonce (aes_gcm_encrypt P k nonce p) = Some p \<and>
                  length (aes_gcm_encrypt P k nonce p) = length p + 16)"

datatype exn = MissingParameters | InvalidCharacterError | OperationError

definition IV_LENGTH :: nat where
  "IV_LENGTH = 12"

definition deriveKey :: "'k webcrypto \<Rightarrow> jsstring \<Rightarrow> bytes \<Rightarrow> 'k" where
  "deriveKey P passkey salt = pbkdf2 P (encode passkey) salt"

record encrypted =
  enc_ciphertext :: jsstring
  enc_iv :: jsstring

text \<open>
  \<open>encrypt\<close>; \<open>random_iv\<close> is what \<open>getRandomBytes(CONFIG.IV_LENGTH)\<close> returns. An
  exception leaves the function (\<open>Inl\<close>).
\<close>

definition encrypt ::
  "'k webcrypto \<Rightarrow> bytes \<Rightarrow> jsstring \<Rightarrow> jsstring \<Rightarrow> jsstring \<Rightarrow> exn + encrypted" where
  "encrypt P random_iv plaintext passkey saltBase64 =
     (if plaintext = [] \<or> passkey = [] \<or> saltBase64 = [] then Inl MissingParameters
      else
        (case base64ToBuffer saltBase64 of
           None \<Rightarrow> Inl InvalidCharacterError
         | Some salt \<Rightarrow>
             (let key = deriveKey P passkey salt;
                  ct = aes_gcm_encrypt P key random_iv (encode plaintext)
              in Inr \<lparr>enc_ciphertext = bufferToBase64 ct, enc_iv = bufferToBase64 random_iv\<rparr>)))"

subsection \<open>generateGibberish\<close>

definition ranges :: "(nat \<times> nat) list" where
  "ranges =
     [(0x0E00, 0x0E7F), (0x10A0, 0x10FF), (0x0530, 0x058F),
      (0x2200, 0x22FF), (0x0400, 0x04FF), (0x3040, 0x309F)]"

text \<open>The loop over the first bytes; the index into \<open>ranges\<close> is below its length.\<close>

fun gibberish_loop :: "nat \<Rightarrow> bytes \<Rightarrow> jsstring" where
  "gibberish_loop i [] = []"
| "gibberish_loop i (b # bs) =
     (let lo = fst (ranges ! (unat b mod length ranges));
          hi = snd (ranges ! (unat b mod length ranges))
      in to_cu (lo + unat b mod (hi - lo))
         # (if i > 0 \<and> i mod 7 = 0 then [0x20] else [])
         @ gibberish_loop (Suc i) bs)"

text \<open>The padlock U+1F512 is the surrogate pair D83D DD12; U+2022 is the bullet.\<close>

definition gibberish_fallback :: jsstring where
  "gibberish_fallback = [0xD83D, 0xDD12, 0x20, 0x2022, 0x2022, 0x2022, 0x2022, 0x2022, 0x2022]"

definition placeholder :: "bytes \<Rightarrow> jsstring" where
  "placeholder bs =
     (let out = gibberish_loop 0 (take (min (length bs) 40) bs)
      in if out = [] then gibberish_fallback else out)"

definition generateGibberish :: "jsstring \<Rightarrow> exn + jsstring" where
  "generateGibberish ciphertextB64 =
     (case base64ToBuffer ciphertextB64 of
        None \<Rightarrow> Inl InvalidCharacterError
      | Some bs \<Rightarrow> Inr (placeholder bs))"

subsection \<open>decrypt\<close>

record decrypted =
  text_out :: jsstring
  success :: bool

definition missing_text :: jsstring where
  "missing_text = [0xD83D, 0xDD12] @ js '' Missing decryption data''"

text \<open>The body of the \<open>try\<close> block: the plaintext bytes, or the exception thrown in it.\<close>

definition try_decrypt ::
  "'k webcrypto \<Rightarrow> jsstring \<Rightarrow> jsstring \<Rightarrow> jsstring \<Rightarrow> jsstring \<Rightarrow> exn + bytes" where
  "try_decrypt P ciphertextB64 ivB64 passkey saltBase64 =
     (case base64ToBuffer saltBase64 of
        None \<Rightarrow> Inl InvalidCharacterError
      | Some salt \<Rightarrow>
          (let key = deriveKey P passkey salt in
           (case base64ToBuffer ivB64 of
              None \<Rightarrow> Inl InvalidCharacterError
            | Some nonce \<Rightarrow>
                (case base64ToBuffer ciphertextB64 of
                   None \<Rightarrow> Inl InvalidCharacterError
                 | Some ct \<Rightarrow>
                     (case aes_gcm_decrypt P key nonce ct of
                        None \<Rightarrow> Inl OperationError
                      | Some plain \<Rightarrow> Inr plain)))))"

text \<open>
  \<open>decrypt\<close>: the \<open>catch\<close> block calls \<open>generateGibberish\<close>, and an exception thrown
  there leaves the function.
\<close>

definition decrypt ::
  "'k webcrypto \<Rightarrow> jsstring \<Rightarrow> jsstring \<Rightarrow> jsstring \<Rightarrow> jsstring \<Rightarrow> exn + decrypted" where
  "decrypt P ciphertextB64 ivB64 passkey saltBase64 =
     (if ciphertextB64 = [] \<or> ivB64 = [] \<or> passkey = [] \<or> saltBase64 = []
      then Inr \<lparr>text_out = missing_text, success = False\<rparr>
      else
        (case try_decrypt P ciphertextB64 ivB64 passkey saltBase64 of
           Inr plain \<Rightarrow> Inr \<lparr>text_out = decode plain, success = True\<rparr>
         | Inl e \<Rightarrow>
             (case generateGibberish ciphertextB64 of
                Inl e' \<Rightarrow> Inl e'
              | Inr g \<Rightarrow> Inr \<lparr>text_out = g, success = False\<rparr>)))"

text \<open>
  A stand-in for \<open>crypto.subtle\<close> with which the theorems are instantiated. The key is
  the passkey bytes followed by the salt; encryption appends to the plaintext a tag of
  16 bytes taken from key and IV; decryption checks the tag.
\<close>

definition toy_tag :: "bytes \<Rightarrow> bytes" where
  "toy_tag k = take 16 (k @ replicate 16 0)"

definition toy_crypto :: "bytes webcrypto" where
  "toy_crypto =
     \<lparr>pbkdf2 = (\<lambda>pw salt. pw @ salt),
      aes_gcm_encrypt = (\<lambda>k nonce p. p @ toy_tag (k @ nonce)),
      aes_gcm_decrypt = (\<lambda>k nonce c.
         if 16 \<le> length c \<and> drop (length c - 16) c = toy_tag (k @ nonce)
         then Some (take (length c - 16) c) else None)\<rparr>"

definition ct0 :: bytes where
  "ct0 = [104, 101, 108, 108, 111, 112, 49, 0, 0, 0, 1, 2, 3, 4, 5, 6, 7, 8, 9, 10, 11]"

definition ct_bom :: bytes where
  "ct_bom = [239, 187, 191, 104, 105, 112, 49, 0, 0, 0, 1, 2, 3, 4, 5, 6, 7, 8, 9, 10, 11]"

definition ct_lone :: bytes where
  "ct_lone = [239, 191, 189, 112, 49, 0, 0, 0, 1, 2, 3, 4, 5, 6, 7, 8, 9, 10, 11]"

definition iv0 :: bytes where
  "iv0 = [1, 2, 3, 4, 5, 6, 7, 8, 9, 10, 11, 12]"

section \<open>Sample values\<close>

text \<open>A browser, a fresh store, a manager and a row, used to instantiate the theorems.\<close>

definition env0 :: browser_env where
  "env0 = \<lparr>stored_theme = None, innerWidth = 1024\<rparr>"

definition app0 :: "(string, nat) app_state" where
  "app0 = INITIAL_STATE env0"

definition rt0 :: realtime where
  "rt0 = \<lparr>rt_activeConversationId = Some ''c1'', rt_userId = Some ''alice''\<rparr>"

definition entry0 :: outbox_entry where
  "entry0 = \<lparr>conversationId = ''c1'', userId = ''alice'', out_ciphertext = js ''QUJD'',
             out_iv = js ''AAAA'', idempotencyKey = ''k1'', replyToId = None,
             messageType = None, queuedAt = Some 0\<rparr>"



definition msg0 :: message where
  "msg0 = \<lparr>msg_id = ''m1'', conversation_id = ''c1'', sender_id = ''bob'',
           idempotency_key = Some ''k1'', ciphertext = None, iv = None\<rparr>"


section \<open>Properties of the store\<close>


subsection \<open>reset empties the key objects and restores the defaults\<close>

lemma delete_update_same: "AList.delete k (AList.update k z ob) = AList.delete k ob"
  by (induction ob) (auto simp: AList.delete_eq)

lemma zero_keys_empty: "fst ` set ob \<subseteq> set ks \<Longrightarrow> zero_keys z ks ob = []"
proof (induction ks arbitrary: ob)
  case Nil then show ?case by simp
next
  case (Cons k ks)
  have "fst ` set (AList.delete k ob) \<subseteq> set ks"
    using Cons.prems by (auto simp: AList.delete_eq)
  then show ?case using Cons.IH by (simp add: delete_update_same)
qed

lemma zero_out_empty: "zero_out z ob = []"
  by (simp add: zero_out_def zero_keys_empty)

text \<open>
  C8. For every store state, \<open>reset\<close> leaves the state that \<open>INITIAL_STATE()\<close> builds, in
  every top-level key but \<open>theme\<close>, which keeps the value it had; and the \<open>passkeys\<close> and
  \<open>derivedKeys\<close> objects of the state it discards have had every key overwritten and
  deleted: both are empty.
\<close>

theorem reset_restores_defaults:
  "fst (reset env st) = (INITIAL_STATE env)\<lparr>theme := theme st\<rparr> \<and>
   snd (reset env st) = ([], [])"
  by (simp add: reset_def Let_def zero_out_empty)

theorem reset_restores_defaults_witness:
  "theme (fst (reset env0 (app0\<lparr>theme := ''light'', passkeys := [(''c1'', js ''pw'')],
           derivedKeys := [(''c1'', Some 7)], totalUnread := Num 3\<rparr>))) = ''light'' \<and>
   totalUnread (fst (reset env0 (app0\<lparr>theme := ''light'', passkeys := [(''c1'', js ''pw'')],
           derivedKeys := [(''c1'', Some 7)], totalUnread := Num 3\<rparr>))) = Num 0 \<and>
   snd (reset env0 (app0\<lparr>theme := ''light'', passkeys := [(''c1'', js ''pw'')],
           derivedKeys := [(''c1'', Some 7)], totalUnread := Num 3\<rparr>)) = ([], [])"
  using reset_restores_defaults[of env0 "app0\<lparr>theme := ''light'', passkeys := [(''c1'', js ''pw'')],
           derivedKeys := [(''c1'', Some 7)], totalUnread := Num 3\<rparr>"]
  by (simp add: INITIAL_STATE_def)

subsection \<open>Own and inherited properties\<close>

lemma proto_inherited: "''__proto__'' \<in> set object_prototype_names"
  by (simp add: object_prototype_names_def)

lemma get_prop_own: "map_of ob k = Some v \<Longrightarrow> get_prop ob k = Own v"
  by (simp add: get_prop_def)

lemma get_prop_absent:
  "k \<notin> set object_prototype_names \<Longrightarrow> map_of ob k = None \<Longrightarrow> get_prop ob k = Absent"
  by (simp add: get_prop_def)

lemma set_prop_update:
  "k \<notin> set object_prototype_names \<Longrightarrow> set_prop k v ob = AList.update k v ob"
  using proto_inherited by (auto simp: set_prop_def)

lemma set_prop_own: "map_of ob k = Some u \<Longrightarrow> set_prop k v ob = AList.update k v ob"
  by (simp add: set_prop_def)

subsection \<open>Lockout after five failed attempts\<close>

lemma record_first:
  assumes "conv \<notin> set object_prototype_names" "map_of (passkeyAttempts st) conv = None"
  shows "recordFailedAttempt t conv st =
     (Entry \<lparr>count = 1, lockedUntil = None\<rparr>,
      st\<lparr>passkeyAttempts :=
           AList.update conv (Entry \<lparr>count = 1, lockedUntil = None\<rparr>) (passkeyAttempts st)\<rparr>)"
  using assms
  by (simp add: recordFailedAttempt_def get_prop_absent set_prop_update count_failure_def
      Let_def PASSKEY_LOCKOUT_ATTEMPTS_def)

lemma record_next:
  assumes "map_of (passkeyAttempts st) conv = Some (Entry a)"
  shows "recordFailedAttempt t conv st =
     (Entry (count_failure t a),
      st\<lparr>passkeyAttempts := AList.update conv (Entry (count_failure t a)) (passkeyAttempts st)\<rparr>)"
  using assms
  by (simp add: recordFailedAttempt_def get_prop_own set_prop_own Let_def)

lemma record_failures_snoc:
  "record_failures (ts @ [t]) conv st = snd (recordFailedAttempt t conv (record_failures ts conv st))"
  by (induction ts arbitrary: st) simp_all

lemma record_failures_entry:
  assumes name: "conv \<notin> set object_prototype_names"
      and fresh: "map_of (passkeyAttempts st) conv = None"
      and ne: "ts \<noteq> []"
  shows "map_of (passkeyAttempts (record_failures ts conv st)) conv =
     Some (Entry \<lparr>count = length ts,
                  lockedUntil = (if 5 \<le> length ts then Some (last ts + 60000) else None)\<rparr>)"
  using ne
proof (induction ts rule: rev_nonempty_induct)
  case (single t)
  have "record_failures [t] conv st = snd (recordFailedAttempt t conv st)" by simp
  then show ?case by (simp add: record_first[OF name fresh] update_conv')
next
  case (snoc t ts)
  let ?a = "\<lparr>count = length ts,
             lockedUntil = (if 5 \<le> length ts then Some (last ts + 60000) else None)\<rparr>"
  have step: "record_failures (ts @ [t]) conv st =
      (record_failures ts conv st)\<lparr>passkeyAttempts :=
         AList.update conv (Entry (count_failure t ?a)) (passkeyAttempts (record_failures ts conv st))\<rparr>"
    by (simp add: record_failures_snoc record_next[OF snoc.IH])
  have "count_failure t ?a =
      \<lparr>count = length (ts @ [t]),
       lockedUntil = (if 5 \<le> length (ts @ [t]) then Some (last (ts @ [t]) + 60000) else None)\<rparr>"
    by (simp add: count_failure_def Let_def PASSKEY_LOCKOUT_ATTEMPTS_def
        PASSKEY_LOCKOUT_DURATION_MS_def)
  then show ?case by (simp add: step update_conv')
qed

lemma not_locked_absent:
  assumes "conv \<notin> set object_prototype_names" "map_of (passkeyAttempts st) conv = None"
  shows "isLockedOut t conv st = (False, st)"
  using assms by (simp add: isLockedOut_def get_prop_absent)

lemma not_locked_below_threshold:
  assumes "map_of (passkeyAttempts st) conv = Some (Entry a)" "count a < 5"
  shows "isLockedOut t conv st = (False, st)"
  using assms by (simp add: isLockedOut_def get_prop_own PASSKEY_LOCKOUT_ATTEMPTS_def)

text \<open>
  C3. For a conversation id that names no property of \<open>Object.prototype\<close> (the ids
  of conversations are UUIDs) and has no entry yet: fewer than five recorded failures
  do not lock it. After exactly five, recorded at the clock readings \<open>ts\<close>,
  \<open>isLockedOut\<close> is true at every reading up to \<open>lockedUntil\<close> (the last failure plus
  the lockout duration) and leaves the state alone; at a later reading it is false
  and deletes the entry, so the conversation has no entry, is no longer locked, and
  the next failure is counted as the first.
\<close>

theorem lockout_boundary:
  assumes name: "conv \<notin> set object_prototype_names"
      and fresh: "map_of (passkeyAttempts st) conv = None" and five: "length ts = 5"
  shows "(\<forall>n<5. isLockedOut t0 conv (record_failures (take n ts) conv st) =
                  (False, record_failures (take n ts) conv st)) \<and>
         (t \<le> last ts + 60000 \<longrightarrow>
            isLockedOut t conv (record_failures ts conv st) = (True, record_failures ts conv st)) \<and>
         (last ts + 60000 < t' \<longrightarrow>
            fst (isLockedOut t' conv (record_failures ts conv st)) = False \<and>
            snd (isLockedOut t' conv (record_failures ts conv st)) =
              (record_failures ts conv st)
                \<lparr>passkeyAttempts := AList.delete conv (passkeyAttempts (record_failures ts conv st))\<rparr> \<and>
            get_prop (passkeyAttempts (snd (isLockedOut t' conv (record_failures ts conv st)))) conv =
              Absent \<and>
            isLockedOut t'' conv (snd (isLockedOut t' conv (record_failures ts conv st))) =
              (False, snd (isLockedOut t' conv (record_failures ts conv st))) \<and>
            fst (recordFailedAttempt t'' conv (snd (isLockedOut t' conv (record_failures ts conv st)))) =
              Entry \<lparr>count = 1, lockedUntil = None\<rparr>)"
proof -
  have ne: "ts \<noteq> []" using five by auto
  have e: "map_of (passkeyAttempts (record_failures ts conv st)) conv =
      Some (Entry \<lparr>count = 5, lockedUntil = Some (last ts + 60000)\<rparr>)"
    using record_failures_entry[OF name fresh ne] five by simp
  have below: "\<forall>n<5. isLockedOut t0 conv (record_failures (take n ts) conv st) =
                  (False, record_failures (take n ts) conv st)"
  proof (intro allI impI)
    fix n :: nat assume n: "n < 5"
    show "isLockedOut t0 conv (record_failures (take n ts) conv st) =
                  (False, record_failures (take n ts) conv st)"
    proof (cases "n = 0")
      case True
      then show ?thesis by (simp add: not_locked_absent[OF name fresh])
    next
      case False
      then have tn: "take n ts \<noteq> []" using five by auto
      have ln: "length (take n ts) = n" using n five by simp
      have ent: "map_of (passkeyAttempts (record_failures (take n ts) conv st)) conv =
          Some (Entry \<lparr>count = n, lockedUntil = None\<rparr>)"
        using record_failures_entry[OF name fresh tn, unfolded ln] n by simp
      have small: "count \<lparr>count = n, lockedUntil = None\<rparr> < 5" using n by simp
      show ?thesis by (rule not_locked_below_threshold[OF ent small])
    qed
  qed
  have locked: "t \<le> last ts + 60000 \<longrightarrow>
      isLockedOut t conv (record_failures ts conv st) = (True, record_failures ts conv st)"
    by (simp add: isLockedOut_def get_prop_own[OF e] PASSKEY_LOCKOUT_ATTEMPTS_def to_number_def)
  let ?s = "record_failures ts conv st"
  let ?s' = "?s\<lparr>passkeyAttempts := AList.delete conv (passkeyAttempts ?s)\<rparr>"
  have expired: "last ts + 60000 < t' \<Longrightarrow> isLockedOut t' conv ?s = (False, ?s')"
    by (simp add: isLockedOut_def get_prop_own[OF e] PASSKEY_LOCKOUT_ATTEMPTS_def to_number_def)
  have gone: "map_of (passkeyAttempts ?s') conv = None"
    by (simp add: delete_conv')
  have z: "get_prop (passkeyAttempts ?s') conv = Absent"
    by (rule get_prop_absent[OF name gone])
  have again: "isLockedOut t'' conv ?s' = (False, ?s')"
    by (rule not_locked_absent[OF name gone])
  have first: "fst (recordFailedAttempt t'' conv ?s') = Entry \<lparr>count = 1, lockedUntil = None\<rparr>"
    by (simp only: record_first[OF name gone] fst_conv)
  show ?thesis using below locked expired z again first by simp
qed

theorem lockout_boundary_witness:
  "''c1'' \<notin> set object_prototype_names \<and>
   map_of (passkeyAttempts app0) ''c1'' = None \<and> length [1000, 2000, 3000, 4000, 5000 :: int] = 5 \<and>
   fst (isLockedOut 5000 ''c1'' (record_failures (take 4 [1000, 2000, 3000, 4000, 5000]) ''c1'' app0)) = False \<and>
   fst (isLockedOut 65000 ''c1'' (record_failures [1000, 2000, 3000, 4000, 5000] ''c1'' app0)) = True \<and>
   fst (isLockedOut 65001 ''c1'' (record_failures [1000, 2000, 3000, 4000, 5000] ''c1'' app0)) = False \<and>
   get_prop (passkeyAttempts (snd (isLockedOut 65001 ''c1''
      (record_failures [1000, 2000, 3000, 4000, 5000] ''c1'' app0)))) ''c1'' = Absent"
proof -
  have h0: "''c1'' \<notin> set object_prototype_names"
    by (simp add: object_prototype_names_def)
  have h1: "map_of (passkeyAttempts app0) ''c1'' = None"
    by (simp add: app0_def INITIAL_STATE_def)
  have h2: "length [1000, 2000, 3000, 4000, 5000 :: int] = 5" by simp
  note th = lockout_boundary[OF h0 h1 h2, of 5000 65000 65001 0]
  have n4: "(4::nat) < 5" by simp
  have p1: "(65000::int) \<le> last [1000, 2000, 3000, 4000, 5000] + 60000" by simp
  have p2: "last [1000, 2000, 3000, 4000, 5000] + 60000 < (65001::int)" by simp
  note a = th[THEN conjunct1, THEN spec, THEN mp, OF n4]
  note b = th[THEN conjunct2, THEN conjunct1, THEN mp, OF p1]
  note c = th[THEN conjunct2, THEN conjunct2, THEN mp, OF p2]
  have a': "fst (isLockedOut 5000 ''c1'' (record_failures (take 4 [1000, 2000, 3000, 4000, 5000]) ''c1'' app0)) = False"
    by (simp only: a fst_conv)
  have b': "fst (isLockedOut 65000 ''c1'' (record_failures [1000, 2000, 3000, 4000, 5000] ''c1'' app0)) = True"
    by (simp only: b fst_conv)
  have c1: "fst (isLockedOut 65001 ''c1'' (record_failures [1000, 2000, 3000, 4000, 5000] ''c1'' app0)) = False"
    using c by (rule conjunct1)
  have c3: "get_prop (passkeyAttempts (snd (isLockedOut 65001 ''c1''
      (record_failures [1000, 2000, 3000, 4000, 5000] ''c1'' app0)))) ''c1'' = Absent"
    using c by blast
  show ?thesis
    by (intro conjI h0 h1 h2 a' b' c1 c3)
qed

text \<open>
  Under a key that names a property of \<open>Object.prototype\<close>, \<open>isLockedOut\<close> answers
  \<open>true\<close> although no failure was recorded.
\<close>

lemma inherited_key_locked:
  "isLockedOut t ''constructor'' (INITIAL_STATE env) = (True, INITIAL_STATE env)"
  by (simp add: isLockedOut_def get_prop_def INITIAL_STATE_def object_prototype_names_def)

section \<open>Properties of the realtime manager and the queue\<close>


subsection \<open>Inserted rows are not duplicated\<close>

lemma messages_of_update:
  "messages_of c (st\<lparr>messages := AList.update c ms (messages st)\<rparr>) = Some ms"
  by (simp add: messages_of_def get_prop_def update_conv')

lemma messages_of_plain:
  "c \<notin> set object_prototype_names \<Longrightarrow>
   messages_of c st = Some (case map_of (messages st) c of None \<Rightarrow> [] | Some ms \<Rightarrow> ms)"
  by (simp add: messages_of_def get_prop_def split: option.splits)

lemma dup_iff_copies:
  "(truthy (idempotency_key msg) \<and>
      list_ex (\<lambda>m. truthy (idempotency_key m) \<and> idempotency_key m = idempotency_key msg) ms
    \<or> list_ex (\<lambda>m. msg_id m = msg_id msg) ms) = (copies msg ms \<noteq> 0)"
  by (auto simp: copies_def same_message_def list_ex_iff filter_empty_conv)

lemma copies_append: "copies msg (xs @ ys) = copies msg xs + copies msg ys"
  by (simp add: copies_def)

lemma onMessageInsert_cases:
  assumes "Some (sender_id msg) \<noteq> rt_userId rt"
      and "messages_of (conversation_id msg) st = Some ms"
  shows "onMessageInsert rt visible (Some msg) st =
     (if copies msg ms \<noteq> 0 then Inr (st, [])
      else Inr (st\<lparr>messages := AList.update (conversation_id msg) (ms @ [msg]) (messages st)\<rparr>,
            (if Some (conversation_id msg) = rt_activeConversationId rt \<and> visible
                then [MarkMessagesRead (conversation_id msg) (rt_userId rt)] else [])
               @ [MessageReceived msg (conversation_id msg)]))"
  using assms dup_iff_copies[of msg ms]
  by (auto simp: onMessageInsert_def Let_def)

lemma same_message_sym: "same_message a b = same_message b a"
  by (auto simp: same_message_def)

lemma first_insert_fresh:
  assumes "Some (sender_id msg) \<noteq> rt_userId rt"
      and "messages_of (conversation_id msg) st = Some ms"
      and "copies msg ms = 0"
  shows "handleMessagePayload rt v (Some msg) st =
           (st\<lparr>messages := AList.update (conversation_id msg) (ms @ [msg]) (messages st)\<rparr>,
            (if Some (conversation_id msg) = rt_activeConversationId rt \<and> v
                then [MarkMessagesRead (conversation_id msg) (rt_userId rt)] else [])
               @ [MessageReceived msg (conversation_id msg)])"
  using assms(3) by (simp add: handleMessagePayload_def onMessageInsert_cases[OF assms(1,2)])

lemma copies_snoc_self: "copies msg (ms @ [msg]) = copies msg ms + 1"
  by (simp add: copies_def same_message_def)

lemma duplicate_noop:
  assumes "Some (sender_id msg) \<noteq> rt_userId rt"
      and "messages_of (conversation_id msg) st = Some ms"
      and "copies msg ms \<noteq> 0"
  shows "onMessageInsert rt v (Some msg) st = Inr (st, [])"
  using assms(3) by (simp add: onMessageInsert_cases[OF assms(1,2)])

lemma handled_of_returned:
  "onMessageInsert rt v row st = Inr r \<Longrightarrow> handleMessagePayload rt v row st = r"
  by (simp add: handleMessagePayload_def)

text \<open>
  C4. For a conversation id that names no property of \<open>Object.prototype\<close> (the ids
  of conversations are UUIDs): a row of another party that the list of its
  conversation does not hold yet is appended by the first delivery, which does not
  throw; a second delivery of the same event, or of a row with the same id or the same
  idempotency key, changes nothing and emits nothing, so the list holds exactly one
  copy.
\<close>

theorem insert_twice_one_copy:
  assumes other: "Some (sender_id msg) \<noteq> rt_userId rt"
      and other': "Some (sender_id msg') \<noteq> rt_userId rt"
      and conv: "conversation_id msg' = conversation_id msg"
      and same: "same_message msg msg'"
      and name: "conversation_id msg \<notin> set object_prototype_names"
      and stored: "messages_of (conversation_id msg) st = Some ms"
      and fresh: "copies msg ms = 0"
  shows "onMessageInsert rt v (Some msg) st = Inr (handleMessagePayload rt v (Some msg) st) \<and>
         messages_of (conversation_id msg) (fst (handleMessagePayload rt v (Some msg) st)) =
           Some (ms @ [msg]) \<and>
         onMessageInsert rt v' (Some msg') (fst (handleMessagePayload rt v (Some msg) st)) =
           Inr (fst (handleMessagePayload rt v (Some msg) st), []) \<and>
         onMessageInsert rt v' (Some msg) (fst (handleMessagePayload rt v (Some msg) st)) =
           Inr (fst (handleMessagePayload rt v (Some msg) st), []) \<and>
         handleMessagePayload rt v' (Some msg') (fst (handleMessagePayload rt v (Some msg) st)) =
           (fst (handleMessagePayload rt v (Some msg) st), []) \<and>
         handleMessagePayload rt v' (Some msg) (fst (handleMessagePayload rt v (Some msg) st)) =
           (fst (handleMessagePayload rt v (Some msg) st), []) \<and>
         copies msg (ms @ [msg]) = 1"
proof -
  let ?c = "conversation_id msg"
  let ?s1 = "fst (handleMessagePayload rt v (Some msg) st)"
  have s1: "?s1 = st\<lparr>messages := AList.update ?c (ms @ [msg]) (messages st)\<rparr>"
    by (simp add: first_insert_fresh[OF other stored fresh])
  have ret: "onMessageInsert rt v (Some msg) st = Inr (handleMessagePayload rt v (Some msg) st)"
    using fresh
    by (simp add: first_insert_fresh[OF other stored fresh] onMessageInsert_cases[OF other stored])
  have l1: "messages_of ?c ?s1 = Some (ms @ [msg])"
    unfolding s1 by (rule messages_of_update)
  have l1': "messages_of (conversation_id msg') ?s1 = Some (ms @ [msg])"
    using l1 by (simp add: conv)
  have one: "copies msg (ms @ [msg]) = 1"
    using fresh by (simp add: copies_snoc_self)
  have "same_message msg' msg" using same by (simp add: same_message_sym)
  then have "copies msg' (ms @ [msg]) \<noteq> 0"
    by (simp add: copies_append) (simp add: copies_def)
  then have second: "onMessageInsert rt v' (Some msg') ?s1 = Inr (?s1, [])"
    by (rule duplicate_noop[OF other' l1'])
  have again: "onMessageInsert rt v' (Some msg) ?s1 = Inr (?s1, [])"
    by (rule duplicate_noop[OF other l1]) (simp add: one)
  note second' = handled_of_returned[OF second]
  note again' = handled_of_returned[OF again]
  show ?thesis
    by (intro conjI ret l1 second again second' again' one)
qed

theorem insert_twice_one_copy_witness:
  "Some (sender_id msg0) \<noteq> rt_userId rt0 \<and>
   same_message msg0 (msg0\<lparr>msg_id := ''m2''\<rparr>) \<and>
   conversation_id msg0 \<notin> set object_prototype_names \<and>
   messages_of (conversation_id msg0) app0 = Some [] \<and>
   copies msg0 [] = 0 \<and>
   messages_of ''c1'' (fst (handleMessagePayload rt0 True (Some (msg0\<lparr>msg_id := ''m2''\<rparr>))
       (fst (handleMessagePayload rt0 True (Some msg0) app0)))) = Some [msg0]"
proof -
  have h1: "Some (sender_id msg0) \<noteq> rt_userId rt0" by (simp add: msg0_def rt0_def)
  have h2: "Some (sender_id (msg0\<lparr>msg_id := ''m2''\<rparr>)) \<noteq> rt_userId rt0" by (simp add: msg0_def rt0_def)
  have h3: "conversation_id (msg0\<lparr>msg_id := ''m2''\<rparr>) = conversation_id msg0" by simp
  have h4: "same_message msg0 (msg0\<lparr>msg_id := ''m2''\<rparr>)"
    by (simp add: same_message_def msg0_def truthy_def)
  have h5: "conversation_id msg0 \<notin> set object_prototype_names"
    by (simp add: msg0_def object_prototype_names_def)
  have h6: "messages_of (conversation_id msg0) app0 = Some []"
    by (simp add: messages_of_plain[OF h5]) (simp add: app0_def INITIAL_STATE_def)
  have h7: "copies msg0 [] = 0" by (simp add: copies_def)
  have c: "conversation_id msg0 = ''c1''" by (simp add: msg0_def)
  note th = insert_twice_one_copy[OF h1 h2 h3 h4 h5 h6 h7, of True True]
  note l1 = th[THEN conjunct2, THEN conjunct1]
  note second = th[THEN conjunct2, THEN conjunct2, THEN conjunct2, THEN conjunct2, THEN conjunct1]
  have "messages_of ''c1'' (fst (handleMessagePayload rt0 True (Some (msg0\<lparr>msg_id := ''m2''\<rparr>))
       (fst (handleMessagePayload rt0 True (Some msg0) app0)))) = Some [msg0]"
    using l1 by (simp add: second c)
  then show ?thesis using h1 h4 h5 h6 h7 by blast
qed

text \<open>
  Delivering the same event twice never adds a second copy, whatever the list held.
\<close>

lemma insert_same_event_twice:
  assumes other: "Some (sender_id msg) \<noteq> rt_userId rt"
      and stored: "messages_of (conversation_id msg) st = Some ms"
  shows "\<exists>ms'. messages_of (conversation_id msg)
            (fst (handleMessagePayload rt v' (Some msg)
               (fst (handleMessagePayload rt v (Some msg) st)))) = Some ms' \<and>
          copies msg ms' = max 1 (copies msg ms)"
proof (cases "copies msg ms = 0")
  case True
  let ?s1 = "fst (handleMessagePayload rt v (Some msg) st)"
  have s1: "?s1 = st\<lparr>messages := AList.update (conversation_id msg) (ms @ [msg]) (messages st)\<rparr>"
    by (simp add: first_insert_fresh[OF other stored True])
  have l1: "messages_of (conversation_id msg) ?s1 = Some (ms @ [msg])"
    unfolding s1 by (rule messages_of_update)
  have one: "copies msg (ms @ [msg]) = 1" using True by (simp add: copies_snoc_self)
  have "onMessageInsert rt v' (Some msg) ?s1 = Inr (?s1, [])"
    by (rule duplicate_noop[OF other l1]) (simp add: one)
  then have "handleMessagePayload rt v' (Some msg) ?s1 = (?s1, [])"
    by (rule handled_of_returned)
  then show ?thesis using l1 one True by simp
next
  case False
  have "onMessageInsert rt v (Some msg) st = Inr (st, [])"
    by (rule duplicate_noop[OF other stored False])
  then have h: "handleMessagePayload rt v (Some msg) st = (st, [])" for v
    using duplicate_noop[OF other stored False] by (simp add: handleMessagePayload_def)
  show ?thesis using False stored by (simp add: h)
qed

text \<open>
  Under a key that names a property of \<open>Object.prototype\<close> and is not in the store,
  the handler throws and the row is not stored.
\<close>

lemma inherited_key_not_stored:
  assumes "Some (sender_id msg) \<noteq> rt_userId rt" "conversation_id msg = ''constructor''"
      and "map_of (messages st) ''constructor'' = None"
  shows "onMessageInsert rt v (Some msg) st = Inl TypeError"
    and "handleMessagePayload rt v (Some msg) st = (st, [])"
  using assms
  by (simp_all add: handleMessagePayload_def onMessageInsert_def messages_of_def get_prop_def
      object_prototype_names_def Let_def)

subsection \<open>The total of the unread counters\<close>













text \<open>
  Under a key that names a property of \<open>Object.prototype\<close> and is not in the store,
  the increment stores a string, and the total is a string.
\<close>

lemma inherited_key_not_counted:
  assumes "Some (sender_id msg) \<noteq> rt_userId rt" "conversation_id msg = ''constructor''"
      and "unreadCounts st = []"
  shows "unreadCounts (fst (handleGlobalMessageInsert rt False (Some msg) st)) =
           [(''constructor'', NotNumeric)]"
    and "totalUnread (fst (handleGlobalMessageInsert rt False (Some msg) st)) = NotNumeric"
  using assms
  by (simp_all add: handleGlobalMessageInsert_def get_prop_def set_prop_def
      object_prototype_names_def Let_def values_sum_def js_add_def)

subsection \<open>Flushing the offline queue\<close>

lemma flush_loop_char:
  "flush_loop clock ok i q acc =
     \<lparr>sent = sent acc + length (filter (\<lambda>p. \<not> expired_at clock p \<and> ok (fst p)) (enumerate i q)),
      failed = failed acc + length (filter (\<lambda>p. expired_at clock p \<or> \<not> ok (fst p)) (enumerate i q)),
      remaining = remaining acc @ map snd (filter (\<lambda>p. \<not> expired_at clock p \<and> \<not> ok (fst p)) (enumerate i q)),
      attempted = attempted acc @ map snd (filter (\<lambda>p. \<not> expired_at clock p) (enumerate i q))\<rparr>"
  by (induction q arbitrary: i acc) (auto simp: expired_at_def)

lemma filter_partition_length:
  "length (filter P xs) + length (filter (\<lambda>x. \<not> P x) xs) = length xs"
  by (induction xs) auto

text \<open>
  C6. For every queue, \<open>flushQueue\<close> hands to \<open>sendMessage\<close> exactly the entries that
  have not expired, in queue order; the new queue holds, in queue order, the entries
  that had not expired and whose send failed; \<open>sent\<close> counts the sends that resolved,
  \<open>failed\<close> the expired entries and the sends that rejected, \<open>remaining\<close> the length of
  the new queue.
\<close>

theorem flushQueue_counts:
  "res_sent (fst (flushQueue clock ok st)) =
     length (filter (\<lambda>p. \<not> expired_at clock p \<and> ok (fst p)) (enumerate 0 (messageQueue st))) \<and>
   res_failed (fst (flushQueue clock ok st)) =
     length (filter (\<lambda>p. expired_at clock p \<or> \<not> ok (fst p)) (enumerate 0 (messageQueue st))) \<and>
   res_remaining (fst (flushQueue clock ok st)) =
     length (messageQueue (fst (snd (flushQueue clock ok st)))) \<and>
   fst (snd (flushQueue clock ok st)) =
     st\<lparr>messageQueue :=
          map snd (filter (\<lambda>p. \<not> expired_at clock p \<and> \<not> ok (fst p)) (enumerate 0 (messageQueue st)))\<rparr> \<and>
   snd (snd (flushQueue clock ok st)) =
     map snd (filter (\<lambda>p. \<not> expired_at clock p) (enumerate 0 (messageQueue st))) \<and>
   res_sent (fst (flushQueue clock ok st)) + res_failed (fst (flushQueue clock ok st)) =
     length (messageQueue st)"
proof (cases "messageQueue st = []")
  case True
  then show ?thesis by (simp add: flushQueue_def)
next
  case False
  have "length (filter (\<lambda>p. \<not> expired_at clock p \<and> ok (fst p)) (enumerate 0 (messageQueue st))) +
        length (filter (\<lambda>p. expired_at clock p \<or> \<not> ok (fst p)) (enumerate 0 (messageQueue st))) =
        length (messageQueue st)"
    using filter_partition_length[of "\<lambda>p. \<not> expired_at clock p \<and> ok (fst p)" "enumerate 0 (messageQueue st)"]
    by (simp add: disj_commute)
  then show ?thesis using False by (simp add: flushQueue_def Let_def flush_loop_char)
qed

theorem flushQueue_counts_witness:
  "fst (flushQueue (\<lambda>i. 360000) (\<lambda>i. i = 1)
          (app0\<lparr>messageQueue := [entry0, entry0\<lparr>queuedAt := Some 300000\<rparr>,
                                   entry0\<lparr>queuedAt := Some 300001\<rparr>]\<rparr>)) =
     \<lparr>res_sent = 1, res_failed = 2, res_remaining = 1\<rparr> \<and>
   messageQueue (fst (snd (flushQueue (\<lambda>i. 360000) (\<lambda>i. i = 1)
          (app0\<lparr>messageQueue := [entry0, entry0\<lparr>queuedAt := Some 300000\<rparr>,
                                   entry0\<lparr>queuedAt := Some 300001\<rparr>]\<rparr>)))) =
     [entry0\<lparr>queuedAt := Some 300001\<rparr>] \<and>
   snd (snd (flushQueue (\<lambda>i. 360000) (\<lambda>i. i = 1)
          (app0\<lparr>messageQueue := [entry0, entry0\<lparr>queuedAt := Some 300000\<rparr>,
                                   entry0\<lparr>queuedAt := Some 300001\<rparr>]\<rparr>))) =
     [entry0\<lparr>queuedAt := Some 300000\<rparr>, entry0\<lparr>queuedAt := Some 300001\<rparr>]"
  using flushQueue_counts[of "\<lambda>i. 360000" "\<lambda>i. i = 1"
      "app0\<lparr>messageQueue := [entry0, entry0\<lparr>queuedAt := Some 300000\<rparr>,
                                entry0\<lparr>queuedAt := Some 300001\<rparr>]\<rparr>"]
  by (simp add: flushQueue_def Let_def expired_at_def queuedAt_or_0_def EXPIRY_MS_def entry0_def)

section \<open>Properties of the reconnection loop\<close>
















section \<open>Properties of the encoding helpers\<close>

subsection \<open>Base64\<close>

lemma b64_code_bound: "b64_code n \<le> 122"
  unfolding b64_code_def by (simp split: if_splits) arith

lemma unat_b64_char: "unat (b64_char n) = b64_code n"
proof -
  have "b64_code n < 2 ^ LENGTH(16)" using b64_code_bound[of n] by simp
  then show ?thesis unfolding b64_char_def by (simp only: unat_of_nat mod_less)
qed

lemma b64_index_char: "n < 64 \<Longrightarrow> b64_index (b64_char n) = Some n"
  unfolding b64_index_def Let_def unat_b64_char b64_code_def
  by (simp split: if_splits) arith

lemma b64_char_not_pad: "n < 64 \<Longrightarrow> b64_char n \<noteq> pad"
proof
  assume "n < 64" "b64_char n = pad"
  then have "b64_code n = 61" using unat_b64_char[of n] by (simp add: pad_def)
  then show False using \<open>n < 64\<close> unfolding b64_code_def by (simp split: if_splits)
qed

lemma b64_char_not_space: "n < 64 \<Longrightarrow> \<not> is_ascii_whitespace (b64_char n)"
proof
  assume "n < 64" "is_ascii_whitespace (b64_char n)"
  then have "unat (b64_char n) \<in> {9, 10, 12, 13, 32}"
    by (auto simp: is_ascii_whitespace_def)
  then have "b64_code n \<in> {9, 10, 12, 13, 32}" by (simp only: unat_b64_char)
  then show False unfolding b64_code_def by (simp split: if_splits) arith+
qed

lemma pad_not_space: "\<not> is_ascii_whitespace pad"
  by (simp add: is_ascii_whitespace_def pad_def)

lemma unat_byte_bound: "unat (a :: byte) < 256"
  using unsigned_less[of a, where ?'a = nat] by simp

lemma b64_values_bound: "\<forall>v \<in> set (b64_values bs). v < 64"
proof (induction bs rule: b64_values.induct)
  case (2 a)
  show ?case using unat_byte_bound[of a] by auto
next
  case (3 a b)
  show ?case using unat_byte_bound[of a] unat_byte_bound[of b] by auto
next
  case (4 a b c rest)
  show ?case using 4 unat_byte_bound[of a] unat_byte_bound[of b] unat_byte_bound[of c] by auto
qed simp


lemma b64_encode_split:
  "b64_encode bs = map b64_char (b64_values bs) @ replicate ((3 - length bs mod 3) mod 3) pad"
proof (induction bs rule: b64_values.induct)
  case 1
  show ?case by simp
next
  case (2 a)
  have "(3 - length [a] mod 3) mod 3 = Suc (Suc 0)" by simp
  then show ?case by (simp only: b64_encode.simps b64_values.simps replicate.simps list.map append.simps)
next
  case (3 a b)
  have "(3 - length [a, b] mod 3) mod 3 = Suc 0" by simp
  then show ?case by (simp only: b64_encode.simps b64_values.simps replicate.simps list.map append.simps)
next
  case (4 a b c rest)
  have "length (a # b # c # rest) = length rest + 3" by simp
  then have "length (a # b # c # rest) mod 3 = length rest mod 3" by (simp only: mod_add_self2)
  then show ?case using 4
    by (simp only: b64_encode.simps b64_values.simps list.map map_append append.simps append_assoc)
qed


lemma div_mult_add_small: "y < k \<Longrightarrow> (x * k + y) div k = (x::nat)"
  by simp


lemma mod_mult_add_small: "y < k \<Longrightarrow> (x * k + y) mod k = (y::nat)"
  by simp


lemma byte_div16: "unat (b :: byte) div 16 < 16"
  using unat_byte_bound[of b] by (simp add: less_mult_imp_div_less)


lemma byte_div64: "unat (c :: byte) div 64 < 4"
  using unat_byte_bound[of c] by (simp add: less_mult_imp_div_less)


lemma to_byte_unat: "to_byte (unat a) = a"
  by (simp add: to_byte_def)

lemma b64_groups_values: "b64_groups (b64_values bs) = bs"
  by (induction bs rule: b64_values.induct)
     (simp_all add: div_mult_add_small mod_mult_add_small byte_div16 byte_div64 to_byte_unat)


lemma those_index_chars:
  "\<forall>v \<in> set vs. v < 64 \<Longrightarrow> those (map b64_index (map b64_char vs)) = Some vs"
  by (induction vs) (simp_all add: b64_index_char)


lemma strip_padding_body:
  assumes "pad \<notin> set body" "k \<le> 2" "length (body @ replicate k pad) mod 4 = 0"
  shows "strip_padding (body @ replicate k pad) = body"
proof -
  have last_body: "body \<noteq> [] \<Longrightarrow> last body \<noteq> pad"
    using assms(1) last_in_set by metis
  consider "k = 0" | "k = 1" | "k = 2" using assms(2) by linarith
  then show ?thesis
  proof cases
    case 1
    then show ?thesis using last_body by (auto simp: strip_padding_def)
  next
    case 2
    then show ?thesis using last_body assms(3) by (auto simp: strip_padding_def)
  next
    case 3
    then have r: "replicate k pad = [pad, pad]" by (simp add: numeral_2_eq_2)
    show ?thesis using assms(3) unfolding r by (simp add: strip_padding_def butlast_append)
  qed
qed


lemma b64_encode_length: "length (b64_encode bs) mod 4 = 0"
  by (induction bs rule: b64_encode.induct) simp_all


lemma b64_values_length_mod: "length (b64_values bs) mod 4 \<noteq> 1"
  by (induction bs rule: b64_values.induct) simp_all


lemma base64_roundtrip: "base64ToBuffer (bufferToBase64 bs) = Some bs"
proof -
  let ?body = "map b64_char (b64_values bs)"
  let ?k = "(3 - length bs mod 3) mod 3"
  have enc: "b64_encode bs = ?body @ replicate ?k pad" by (rule b64_encode_split)
  have nospace: "filter (\<lambda>c. \<not> is_ascii_whitespace c) (b64_encode bs) = b64_encode bs"
    unfolding enc using b64_values_bound[of bs]
    by (auto simp: filter_id_conv b64_char_not_space pad_not_space)
  have nopad: "pad \<notin> set ?body"
  proof
    assume "pad \<in> set ?body"
    then obtain v where "v \<in> set (b64_values bs)" "b64_char v = pad" by auto
    then show False using b64_values_bound[of bs] b64_char_not_pad[of v] by auto
  qed
  have strip: "strip_padding (b64_encode bs) = ?body"
    unfolding enc
    by (rule strip_padding_body[OF nopad]) (simp_all add: enc[symmetric] b64_encode_length)
  have idx: "those (map b64_index ?body) = Some (b64_values bs)"
    using b64_values_bound[of bs] by (rule those_index_chars)
  have len: "length ?body mod 4 \<noteq> 1"
    using b64_values_length_mod[of bs] by simp
  have "forgiving_base64_decode (b64_encode bs) = map_option b64_groups (those (map b64_index ?body))"
    unfolding forgiving_base64_decode_def nospace strip Let_def using len by (simp only: if_False)
  then show ?thesis
    by (simp only: idx b64_groups_values base64ToBuffer_def bufferToBase64_def option.map)
qed


lemma bufferToBase64_nonempty: "bs \<noteq> [] \<Longrightarrow> bufferToBase64 bs \<noteq> []"
  by (cases bs rule: b64_encode.cases) (simp_all add: bufferToBase64_def)

subsection \<open>Text encoding\<close>

lemma unat_to_byte: "n < 256 \<Longrightarrow> unat (to_byte n) = n"
  unfolding to_byte_def by (simp only: unat_of_nat) simp

lemma unat_to_cu: "n < 65536 \<Longrightarrow> unat (to_cu n) = n"
  unfolding to_cu_def by (simp only: unat_of_nat) simp

lemma to_cu_unat: "to_cu (unat c) = c"
  by (simp add: to_cu_def)

lemma decode_ascii:
  assumes "cp < 0x80"
  shows "utf8_decode decoder_init (utf8_bytes cp @ rest) = cp # utf8_decode decoder_init rest"
proof -
  have u: "unat (to_byte cp) = cp" using assms by (intro unat_to_byte) simp
  have l: "lead_byte cp = ([cp], decoder_init)" using assms by (simp add: lead_byte_def)
  show ?thesis using assms
    by (simp add: utf8_bytes_def u l Let_def) (simp add: decoder_init_def)
qed

lemma split3:
  fixes cp :: nat
  shows "cp = 4096 * (cp div 4096) + 64 * (cp div 64 mod 64) + cp mod 64"
proof -
  have "cp mod 4096 = 64 * (cp div 64 mod 64) + cp mod 64"
    using mod_mult2_eq[of cp 64 64] by simp
  moreover have "cp = 4096 * (cp div 4096) + cp mod 4096" by simp
  ultimately show ?thesis by linarith
qed

lemma split4:
  fixes cp :: nat
  shows "cp = 262144 * (cp div 262144) + 4096 * (cp div 4096 mod 64)
             + 64 * (cp div 64 mod 64) + cp mod 64"
proof -
  have a: "cp mod 4096 = 64 * (cp div 64 mod 64) + cp mod 64"
    using mod_mult2_eq[of cp 64 64] by simp
  have b: "cp mod 262144 = 4096 * (cp div 4096 mod 64) + cp mod 4096"
    using mod_mult2_eq[of cp 4096 64] by simp
  have "cp = 262144 * (cp div 262144) + cp mod 262144" by simp
  then show ?thesis using a b by linarith
qed

lemma decode_lead:
  "utf8_decode decoder_init (to_byte b # rest) =
     fst (lead_byte (unat (to_byte b))) @ utf8_decode (snd (lead_byte (unat (to_byte b)))) rest"
  by (simp add: Let_def decoder_init_def)

lemma lead2:
  assumes "2 \<le> h" "h < 32"
  shows "lead_byte (0xC0 + h) = ([], decoder_init\<lparr>bytes_needed := 1, code_point := h\<rparr>)"
proof -
  have "(192 + h) mod 32 = h" using assms mod_mult_self3[of 6 32 h] by simp
  then show ?thesis using assms by (simp add: lead_byte_def)
qed

lemma lead3:
  assumes "h < 16"
  shows "lead_byte (0xE0 + h) =
     ([], decoder_init\<lparr>bytes_needed := 2, code_point := h,
            lower_boundary := (if h = 0 then 0xA0 else 0x80),
            upper_boundary := (if h = 13 then 0x9F else 0xBF)\<rparr>)"
proof -
  have "(224 + h) mod 16 = h" using assms mod_mult_self3[of 14 16 h] by simp
  then show ?thesis using assms by (simp add: lead_byte_def)
qed

lemma lead4:
  assumes "h < 5"
  shows "lead_byte (0xF0 + h) =
     ([], decoder_init\<lparr>bytes_needed := 3, code_point := h,
            lower_boundary := (if h = 0 then 0x90 else 0x80),
            upper_boundary := (if h = 4 then 0x8F else 0xBF)\<rparr>)"
proof -
  have "(240 + h) mod 8 = h" using assms mod_mult_self3[of 30 8 h] by simp
  then show ?thesis using assms by (simp add: lead_byte_def)
qed

lemma continuation_byte:
  assumes "x < 64"
  shows "unat (to_byte (0x80 + x)) = 0x80 + x" "(0x80 + x) mod 64 = x"
proof -
  show "unat (to_byte (0x80 + x)) = 0x80 + x" using assms by (intro unat_to_byte) simp
  show "(0x80 + x) mod 64 = x" using assms mod_mult_self3[of 2 64 x] by simp
qed

lemma continuation_more:
  assumes "x < 64" "bytes_needed d \<noteq> 0"
      and "lower_boundary d \<le> 0x80 + x" "0x80 + x \<le> upper_boundary d"
      and "bytes_seen d + 1 \<noteq> bytes_needed d"
  shows "utf8_decode d (to_byte (0x80 + x) # rest) =
     utf8_decode (d\<lparr>code_point := code_point d * 64 + x, bytes_seen := bytes_seen d + 1,
                     lower_boundary := 0x80, upper_boundary := 0xBF\<rparr>) rest"
  using assms(2-5) by (simp add: continuation_byte[OF assms(1)] Let_def)

lemma continuation_last:
  assumes "x < 64" "bytes_needed d \<noteq> 0"
      and "lower_boundary d \<le> 0x80 + x" "0x80 + x \<le> upper_boundary d"
      and "bytes_seen d + 1 = bytes_needed d"
  shows "utf8_decode d (to_byte (0x80 + x) # rest) =
     (code_point d * 64 + x) # utf8_decode decoder_init rest"
  using assms(2-5) by (simp add: continuation_byte[OF assms(1)] Let_def)

lemma decode_two:
  assumes "0x80 \<le> cp" "cp < 0x800"
  shows "utf8_decode decoder_init (utf8_bytes cp @ rest) = cp # utf8_decode decoder_init rest"
proof -
  define h where "h = cp div 64"
  define l where "l = cp mod 64"
  have l: "l < 64" by (simp add: l_def)
  have cp: "h * 64 + l = cp" by (simp add: h_def l_def)
  have h: "2 \<le> h" "h < 32" using assms cp l by linarith+
  have u: "unat (to_byte (0xC0 + h)) = 0xC0 + h" using h by (intro unat_to_byte) simp
  have b: "utf8_bytes cp = [to_byte (0xC0 + h), to_byte (0x80 + l)]"
    using assms by (simp add: utf8_bytes_def h_def l_def)
  have "utf8_decode decoder_init (utf8_bytes cp @ rest) =
        utf8_decode (decoder_init\<lparr>bytes_needed := 1, code_point := h\<rparr>) (to_byte (0x80 + l) # rest)"
    unfolding b by (simp only: append.simps decode_lead u lead2[OF h] fst_conv snd_conv)
  also have "\<dots> = (h * 64 + l) # utf8_decode decoder_init rest"
    using l by (subst continuation_last) (simp_all add: decoder_init_def)
  finally show ?thesis by (simp only: cp)
qed

lemma decode_three:
  assumes "0x800 \<le> cp" "cp < 0x10000" "cp < 0xD800 \<or> 0xDFFF < cp"
  shows "utf8_decode decoder_init (utf8_bytes cp @ rest) = cp # utf8_decode decoder_init rest"
proof -
  define h where "h = cp div 4096"
  define m where "m = cp div 64 mod 64"
  define l where "l = cp mod 64"
  have m: "m < 64" by (simp add: m_def)
  have l: "l < 64" by (simp add: l_def)
  have cp: "cp = 4096 * h + 64 * m + l" unfolding h_def m_def l_def by (rule split3)
  have h: "h < 16" using assms cp m l by linarith
  have lo: "h = 0 \<Longrightarrow> 32 \<le> m" using assms cp m l by linarith
  have hi: "h = 13 \<Longrightarrow> m < 32" using assms cp m l by linarith
  have u: "unat (to_byte (0xE0 + h)) = 0xE0 + h" using h by (intro unat_to_byte) simp
  have b: "utf8_bytes cp = [to_byte (0xE0 + h), to_byte (0x80 + m), to_byte (0x80 + l)]"
    using assms by (simp add: utf8_bytes_def h_def l_def m_def)
  let ?d1 = "decoder_init\<lparr>bytes_needed := 2, code_point := h,
            lower_boundary := (if h = 0 then 0xA0 else 0x80),
            upper_boundary := (if h = 13 then 0x9F else 0xBF)\<rparr>"
  let ?d2 = "?d1\<lparr>code_point := code_point ?d1 * 64 + m, bytes_seen := bytes_seen ?d1 + 1,
                     lower_boundary := 0x80, upper_boundary := 0xBF\<rparr>"
  have "utf8_decode decoder_init (utf8_bytes cp @ rest) =
        utf8_decode ?d1 (to_byte (0x80 + m) # to_byte (0x80 + l) # rest)"
    unfolding b by (simp only: append.simps decode_lead u lead3[OF h] fst_conv snd_conv)
  also have "\<dots> = utf8_decode ?d2 (to_byte (0x80 + l) # rest)"
    using m lo hi by (subst continuation_more) (auto simp: decoder_init_def)
  also have "\<dots> = (code_point ?d2 * 64 + l) # utf8_decode decoder_init rest"
    using l by (subst continuation_last) (simp_all add: decoder_init_def)
  finally show ?thesis using cp by simp
qed

lemma decode_four:
  assumes "0x10000 \<le> cp" "cp < 0x110000"
  shows "utf8_decode decoder_init (utf8_bytes cp @ rest) = cp # utf8_decode decoder_init rest"
proof -
  define h where "h = cp div 262144"
  define n where "n = cp div 4096 mod 64"
  define m where "m = cp div 64 mod 64"
  define l where "l = cp mod 64"
  have n: "n < 64" by (simp add: n_def)
  have m: "m < 64" by (simp add: m_def)
  have l: "l < 64" by (simp add: l_def)
  have cp: "cp = 262144 * h + 4096 * n + 64 * m + l" unfolding h_def n_def m_def l_def by (rule split4)
  have h: "h < 5" using assms cp n m l by linarith
  have lo: "h = 0 \<Longrightarrow> 16 \<le> n" using assms cp n m l by linarith
  have hi: "h = 4 \<Longrightarrow> n < 16" using assms cp n m l by linarith
  have u: "unat (to_byte (0xF0 + h)) = 0xF0 + h" using h by (intro unat_to_byte) simp
  have b: "utf8_bytes cp = [to_byte (0xF0 + h), to_byte (0x80 + n), to_byte (0x80 + m), to_byte (0x80 + l)]"
    using assms by (simp add: utf8_bytes_def h_def l_def m_def n_def)
  let ?d1 = "decoder_init\<lparr>bytes_needed := 3, code_point := h,
            lower_boundary := (if h = 0 then 0x90 else 0x80),
            upper_boundary := (if h = 4 then 0x8F else 0xBF)\<rparr>"
  let ?d2 = "?d1\<lparr>code_point := code_point ?d1 * 64 + n, bytes_seen := bytes_seen ?d1 + 1,
                     lower_boundary := 0x80, upper_boundary := 0xBF\<rparr>"
  let ?d3 = "?d2\<lparr>code_point := code_point ?d2 * 64 + m, bytes_seen := bytes_seen ?d2 + 1,
                     lower_boundary := 0x80, upper_boundary := 0xBF\<rparr>"
  have "utf8_decode decoder_init (utf8_bytes cp @ rest) =
        utf8_decode ?d1 (to_byte (0x80 + n) # to_byte (0x80 + m) # to_byte (0x80 + l) # rest)"
    unfolding b by (simp only: append.simps decode_lead u lead4[OF h] fst_conv snd_conv)
  also have "\<dots> = utf8_decode ?d2 (to_byte (0x80 + m) # to_byte (0x80 + l) # rest)"
    using n lo hi by (subst continuation_more) (auto simp: decoder_init_def)
  also have "\<dots> = utf8_decode ?d3 (to_byte (0x80 + l) # rest)"
    using m by (subst continuation_more) (simp_all add: decoder_init_def)
  also have "\<dots> = (code_point ?d3 * 64 + l) # utf8_decode decoder_init rest"
    using l by (subst continuation_last) (simp_all add: decoder_init_def)
  finally show ?thesis using cp by simp
qed

lemma decode_scalar:
  assumes "scalar cp"
  shows "utf8_decode decoder_init (utf8_bytes cp @ rest) = cp # utf8_decode decoder_init rest"
proof -
  consider "cp < 0x80" | "0x80 \<le> cp" "cp < 0x800" | "0x800 \<le> cp" "cp < 0x10000"
    | "0x10000 \<le> cp" by linarith
  then show ?thesis
  proof cases
    case 1 then show ?thesis by (rule decode_ascii)
  next
    case 2 then show ?thesis by (rule decode_two)
  next
    case 3 then show ?thesis using assms by (intro decode_three) (simp_all add: scalar_def)
  next
    case 4 then show ?thesis using assms by (intro decode_four) (simp_all add: scalar_def)
  qed
qed

lemma decode_nothing: "utf8_decode decoder_init [] = []"
  by (simp add: decoder_init_def)

lemma decode_scalars:
  "list_all scalar cps \<Longrightarrow> utf8_decode decoder_init (concat (map utf8_bytes cps)) = cps"
proof (induction cps)
  case Nil
  show ?case by (simp only: list.map concat.simps decode_nothing)
next
  case (Cons cp cps)
  then have "scalar cp" "utf8_decode decoder_init (concat (map utf8_bytes cps)) = cps" by simp_all
  then show ?case by (simp only: list.map concat.simps decode_scalar)
qed

lemma unat_cu_bound: "unat (c :: cu) < 65536"
  using unsigned_less[of c, where ?'a = nat] by simp

lemma pair_value_bounds:
  assumes "is_high_surrogate a" "is_low_surrogate b"
  shows "0x10000 \<le> 0x10000 + (unat a - 0xD800) * 0x400 + (unat b - 0xDC00)"
    and "0x10000 + (unat a - 0xD800) * 0x400 + (unat b - 0xDC00) < 0x110000"
  using assms unfolding is_high_surrogate_def is_low_surrogate_def by linarith+

lemma scalar_unit: "\<not> is_surrogate a \<Longrightarrow> scalar (unat a)"
  using unat_cu_bound[of a]
  unfolding scalar_def is_surrogate_def is_high_surrogate_def is_low_surrogate_def
  by linarith

lemma scalar_values_scalar: "list_all scalar (scalar_values s)"
proof (induction s rule: scalar_values.induct)
  case 1
  show ?case by simp
next
  case (2 a)
  show ?case by (simp add: scalar_unit) (simp add: scalar_def REPLACEMENT_def)
next
  case (3 a b rest)
  have r: "scalar REPLACEMENT" by (simp add: scalar_def REPLACEMENT_def)
  show ?case
  proof (cases "is_high_surrogate a \<and> is_low_surrogate b")
    case True
    have eq: "scalar_values (a # b # rest) =
        (0x10000 + (unat a - 0xD800) * 0x400 + (unat b - 0xDC00)) # scalar_values rest"
      using True by simp
    have "scalar (0x10000 + (unat a - 0xD800) * 0x400 + (unat b - 0xDC00))"
      using True pair_value_bounds[of a b] unfolding scalar_def by linarith
    then show ?thesis unfolding eq using 3(1)[OF True] by simp
  next
    case False
    have eq: "scalar_values (a # b # rest) =
        (if is_surrogate a then REPLACEMENT else unat a) # scalar_values (b # rest)"
      by (simp only: scalar_values.simps False if_False)
    show ?thesis unfolding eq using 3(2)[OF False] r by (simp add: scalar_unit)
  qed
qed

lemma utf16_pair:
  assumes "is_high_surrogate a" "is_low_surrogate b"
  shows "utf16_units (0x10000 + (unat a - 0xD800) * 0x400 + (unat b - 0xDC00)) = [a, b]"
proof -
  define x where "x = unat a - 0xD800"
  define y where "y = unat b - 0xDC00"
  have y: "y < 0x400" using assms(2) unfolding y_def is_low_surrogate_def by linarith
  have a: "0xD800 + x = unat a" using assms(1) unfolding x_def is_high_surrogate_def by linarith
  have b: "0xDC00 + y = unat b" using assms(2) unfolding y_def is_low_surrogate_def by linarith
  have d: "(x * 0x400 + y) div 0x400 = x" using y by simp
  have m: "(x * 0x400 + y) mod 0x400 = y" using y by simp
  have "utf16_units (0x10000 + x * 0x400 + y) =
      [to_cu (0xD800 + (x * 0x400 + y) div 0x400), to_cu (0xDC00 + (x * 0x400 + y) mod 0x400)]"
    by (simp add: utf16_units_def)
  then show ?thesis unfolding d m a b x_def[symmetric] y_def[symmetric] by (simp only: to_cu_unat)
qed

lemma utf16_unit: "utf16_units (unat a) = [a]"
  using unat_cu_bound[of a] by (simp add: utf16_units_def to_cu_unat)

lemma utf16_scalar_values:
  "well_formed s \<Longrightarrow> concat (map utf16_units (scalar_values s)) = s"
proof (induction s rule: scalar_values.induct)
  case 1
  show ?case by simp
next
  case (2 a)
  then show ?case by (simp add: utf16_unit)
next
  case (3 a b rest)
  show ?case
  proof (cases "is_high_surrogate a \<and> is_low_surrogate b")
    case True
    have eq: "scalar_values (a # b # rest) =
        (0x10000 + (unat a - 0xD800) * 0x400 + (unat b - 0xDC00)) # scalar_values rest"
      using True by simp
    have wf: "well_formed rest" using 3(3) True by simp
    have p: "utf16_units (0x10000 + (unat a - 0xD800) * 0x400 + (unat b - 0xDC00)) = [a, b]"
      using True by (intro utf16_pair) simp_all
    show ?thesis unfolding eq using 3(1)[OF True wf] by (simp only: list.map concat.simps p append.simps)
  next
    case False
    have eq: "scalar_values (a # b # rest) =
        (if is_surrogate a then REPLACEMENT else unat a) # scalar_values (b # rest)"
      by (simp only: scalar_values.simps False if_False)
    have "well_formed (a # b # rest) = (\<not> is_surrogate a \<and> well_formed (b # rest))"
      by (simp only: well_formed.simps False if_False)
    then have wf: "\<not> is_surrogate a" "well_formed (b # rest)" using 3(3) by blast+
    show ?thesis unfolding eq using 3(2)[OF False wf(2)] wf(1)
      by (simp only: list.map concat.simps if_False utf16_unit append.simps)
  qed
qed

lemma scalar_values_no_bom:
  assumes "s \<noteq> []" "hd s \<noteq> 0xFEFF"
  shows "strip_bom (scalar_values s) = scalar_values s"
proof -
  have u: "unat (hd s) \<noteq> 0xFEFF"
  proof
    assume "unat (hd s) = 0xFEFF"
    then have "to_cu (unat (hd s)) = to_cu 0xFEFF" by simp
    then show False using assms(2) by (simp add: to_cu_unat) (simp add: to_cu_def)
  qed
  show ?thesis
  proof (cases s rule: scalar_values.cases)
    case 1
    then show ?thesis using assms by simp
  next
    case (2 a)
    then show ?thesis using u by (simp add: strip_bom_def REPLACEMENT_def)
  next
    case (3 a b rest)
    then show ?thesis using u pair_value_bounds[of a b]
      by (auto simp: strip_bom_def REPLACEMENT_def)
  qed
qed

lemma text_roundtrip:
  assumes "well_formed s" "s \<noteq> []" "hd s \<noteq> 0xFEFF"
  shows "decode (encode s) = s"
  unfolding decode_def encode_def
  by (simp only: decode_scalars[OF scalar_values_scalar] scalar_values_no_bom[OF assms(2,3)]
      utf16_scalar_values[OF assms(1)])

section \<open>Properties of encrypt and decrypt\<close>

lemma length_toy_tag: "length (toy_tag k) = 16"
  by (simp add: toy_tag_def del: take_append)

lemma toy_aead_correct: "aead_correct toy_crypto"
  by (simp add: aead_correct_def toy_crypto_def length_toy_tag)

lemma encrypt_returns:
  assumes "plaintext \<noteq> []" "passkey \<noteq> []" "saltBase64 \<noteq> []"
      and "base64ToBuffer saltBase64 = Some salt"
  shows "encrypt P random_iv plaintext passkey saltBase64 =
     Inr \<lparr>enc_ciphertext =
            bufferToBase64 (aes_gcm_encrypt P (deriveKey P passkey salt) random_iv (encode plaintext)),
          enc_iv = bufferToBase64 random_iv\<rparr>"
  using assms by (simp add: encrypt_def Let_def)

lemma try_decrypt_of_encrypted:
  assumes "aead_correct P" "base64ToBuffer saltBase64 = Some salt"
  shows "try_decrypt P
           (bufferToBase64 (aes_gcm_encrypt P (deriveKey P passkey salt) nonce pt))
           (bufferToBase64 nonce) passkey saltBase64 = Inr pt"
  using assms by (simp add: try_decrypt_def Let_def base64_roundtrip aead_correct_def)

lemma decode_encode:
  "decode (encode s) = concat (map utf16_units (strip_bom (scalar_values s)))"
  unfolding decode_def encode_def by (simp only: decode_scalars[OF scalar_values_scalar])

lemma roundtrip_any_text:
  assumes aead: "aead_correct P"
      and ne: "plaintext \<noteq> []" and pk: "passkey \<noteq> []"
      and s1: "saltBase64 \<noteq> []" and s2: "base64ToBuffer saltBase64 = Some salt"
      and ivne: "random_iv \<noteq> []"
  shows "(case encrypt P random_iv plaintext passkey saltBase64 of
            Inl e \<Rightarrow> False
          | Inr r \<Rightarrow>
              decrypt P (enc_ciphertext r) (enc_iv r) passkey saltBase64 =
                Inr \<lparr>text_out = decode (encode plaintext), success = True\<rparr>)"
proof -
  let ?ct = "aes_gcm_encrypt P (deriveKey P passkey salt) random_iv (encode plaintext)"
  have "length ?ct = length (encode plaintext) + 16"
    using aead unfolding aead_correct_def by blast
  then have ctne: "?ct \<noteq> []" by auto
  have present: "bufferToBase64 ?ct \<noteq> []" "bufferToBase64 random_iv \<noteq> []"
    using ctne ivne by (simp_all add: bufferToBase64_nonempty)
  have t: "try_decrypt P (bufferToBase64 ?ct) (bufferToBase64 random_iv) passkey saltBase64 =
      Inr (encode plaintext)"
    by (rule try_decrypt_of_encrypted[OF aead s2])
  have d: "decrypt P (bufferToBase64 ?ct) (bufferToBase64 random_iv) passkey saltBase64 =
      Inr \<lparr>text_out = decode (encode plaintext), success = True\<rparr>"
    using present pk s1 by (simp add: decrypt_def t)
  show ?thesis by (simp add: encrypt_returns[OF ne pk s1 s2] d)
qed

text \<open>
  C1, as amended. When AES-GCM decrypts what it encrypted, then for every non-empty
  plaintext that is well formed and does not begin with U+FEFF, every non-empty
  passkey, every non-empty salt that \<open>atob\<close> accepts and every IV of
  \<open>IV_LENGTH\<close> bytes, \<open>encrypt\<close> returns, and \<open>decrypt\<close> on the ciphertext and IV it
  returned, with the same passkey and salt, gives the plaintext back with success
  true.
\<close>

theorem encrypt_decrypt_roundtrip:
  assumes aead: "aead_correct P"
      and wf: "well_formed plaintext" and ne: "plaintext \<noteq> []" and nobom: "hd plaintext \<noteq> 0xFEFF"
      and pk: "passkey \<noteq> []"
      and s1: "saltBase64 \<noteq> []" and s2: "base64ToBuffer saltBase64 = Some salt"
      and ivlen: "length random_iv = IV_LENGTH"
  shows "(case encrypt P random_iv plaintext passkey saltBase64 of
            Inl e \<Rightarrow> False
          | Inr r \<Rightarrow>
              decrypt P (enc_ciphertext r) (enc_iv r) passkey saltBase64 =
                Inr \<lparr>text_out = plaintext, success = True\<rparr>)"
proof -
  have ivne: "random_iv \<noteq> []" using ivlen by (auto simp: IV_LENGTH_def)
  show ?thesis
    using roundtrip_any_text[OF aead ne pk s1 s2 ivne]
    by (simp only: text_roundtrip[OF wf ne nobom])
qed

lemma salt_AAAA: "base64ToBuffer (js ''AAAA'') = Some [0, 0, 0]"
proof -
  have "js ''AAAA'' = bufferToBase64 [0, 0, 0]"
    by (simp add: js_def bufferToBase64_def b64_char_def b64_code_def)
  then show ?thesis by (simp only: base64_roundtrip)
qed

lemma js_nonempty: "s \<noteq> [] \<Longrightarrow> js s \<noteq> []"
  by (simp add: js_def)

lemma well_formed_hello: "well_formed (js ''hello'')"
  by (simp add: js_def is_surrogate_def is_high_surrogate_def is_low_surrogate_def)

theorem encrypt_decrypt_roundtrip_witness:
  "aead_correct toy_crypto \<and> well_formed (js ''hello'') \<and> js ''hello'' \<noteq> [] \<and>
   hd (js ''hello'') \<noteq> 0xFEFF \<and> js ''p1'' \<noteq> [] \<and> js ''AAAA'' \<noteq> [] \<and>
   base64ToBuffer (js ''AAAA'') = Some [0, 0, 0] \<and> length iv0 = IV_LENGTH \<and>
   (case encrypt toy_crypto iv0 (js ''hello'') (js ''p1'') (js ''AAAA'') of
      Inl e \<Rightarrow> False
    | Inr r \<Rightarrow>
        decrypt toy_crypto (enc_ciphertext r) (enc_iv r) (js ''p1'') (js ''AAAA'') =
          Inr \<lparr>text_out = js ''hello'', success = True\<rparr>)"
proof -
  have h2: "js ''hello'' \<noteq> []" "js ''p1'' \<noteq> []" "js ''AAAA'' \<noteq> []"
    by (simp_all add: js_def)
  have h3: "hd (js ''hello'') \<noteq> 0xFEFF" by (simp add: js_def)
  have h4: "length iv0 = IV_LENGTH" by (simp add: iv0_def IV_LENGTH_def)
  note th = encrypt_decrypt_roundtrip[OF toy_aead_correct well_formed_hello h2(1) h3 h2(2) h2(3) salt_AAAA h4]
  show ?thesis
    by (intro conjI toy_aead_correct well_formed_hello h2 h3 h4 salt_AAAA th)
qed

lemma not_base64: "base64ToBuffer (js ''!'') = None"
  by (simp add: base64ToBuffer_def forgiving_base64_decode_def js_def strip_padding_def
      is_ascii_whitespace_def b64_index_def pad_def Let_def)

lemma text_bom: "decode (encode (0xFEFF # js ''hi'')) = js ''hi''"
  by (simp add: decode_encode js_def strip_bom_def utf16_units_def to_cu_def
      is_surrogate_def is_high_surrogate_def is_low_surrogate_def)

lemma text_lone_surrogate: "decode (encode [0xD800]) = [0xFFFD]"
  by (simp add: decode_encode strip_bom_def utf16_units_def to_cu_def REPLACEMENT_def
      is_surrogate_def is_high_surrogate_def is_low_surrogate_def)

lemma encode_p1: "encode (js ''p1'') = [112, 49]"
  by (simp add: encode_def js_def utf8_bytes_def to_byte_def
      is_surrogate_def is_high_surrogate_def is_low_surrogate_def)

lemma encode_bom: "encode (0xFEFF # js ''hi'') = [239, 187, 191, 104, 105]"
  by (simp add: encode_def js_def utf8_bytes_def to_byte_def
      is_surrogate_def is_high_surrogate_def is_low_surrogate_def)

lemma encode_lone: "encode [0xD800] = [239, 191, 189]"
  by (simp add: encode_def utf8_bytes_def to_byte_def REPLACEMENT_def
      is_surrogate_def is_high_surrogate_def is_low_surrogate_def)

lemma toy_encrypt_bom:
  "aes_gcm_encrypt toy_crypto (deriveKey toy_crypto (js ''p1'') [0, 0, 0]) iv0
     (encode (0xFEFF # js ''hi'')) = ct_bom"
  by (simp add: toy_crypto_def deriveKey_def encode_p1 encode_bom toy_tag_def iv0_def ct_bom_def)

lemma toy_encrypt_lone:
  "aes_gcm_encrypt toy_crypto (deriveKey toy_crypto (js ''p1'') [0, 0, 0]) iv0
     (encode [0xD800]) = ct_lone"
  by (simp add: toy_crypto_def deriveKey_def encode_p1 encode_lone toy_tag_def iv0_def ct_lone_def)

text \<open>
  C1, as stated, fails at three inputs: with the salt \<open>!\<close>, which is not base64,
  \<open>encrypt\<close> throws; a plaintext that begins with U+FEFF comes back without it; a
  plaintext that is a lone surrogate comes back as U+FFFD.
\<close>

theorem encrypt_decrypt_roundtrip_counterexample:
  "encrypt toy_crypto iv0 (js ''hello'') (js ''p1'') (js ''!'') = Inl InvalidCharacterError \<and>
   encrypt toy_crypto iv0 (0xFEFF # js ''hi'') (js ''p1'') (js ''AAAA'') =
     Inr \<lparr>enc_ciphertext = bufferToBase64 ct_bom, enc_iv = bufferToBase64 iv0\<rparr> \<and>
   decrypt toy_crypto (bufferToBase64 ct_bom) (bufferToBase64 iv0) (js ''p1'') (js ''AAAA'') =
     Inr \<lparr>text_out = js ''hi'', success = True\<rparr> \<and>
   js ''hi'' \<noteq> 0xFEFF # js ''hi'' \<and>
   encrypt toy_crypto iv0 [0xD800] (js ''p1'') (js ''AAAA'') =
     Inr \<lparr>enc_ciphertext = bufferToBase64 ct_lone, enc_iv = bufferToBase64 iv0\<rparr> \<and>
   decrypt toy_crypto (bufferToBase64 ct_lone) (bufferToBase64 iv0) (js ''p1'') (js ''AAAA'') =
     Inr \<lparr>text_out = [0xFFFD], success = True\<rparr>"
proof -
  have n: "js ''hello'' \<noteq> []" "js ''p1'' \<noteq> []" "js ''AAAA'' \<noteq> []" "js ''!'' \<noteq> []" "iv0 \<noteq> []"
    by (simp_all add: js_def iv0_def)
  have a: "encrypt toy_crypto iv0 (js ''hello'') (js ''p1'') (js ''!'') = Inl InvalidCharacterError"
    using n by (simp add: encrypt_def not_base64)
  have b1: "encrypt toy_crypto iv0 (0xFEFF # js ''hi'') (js ''p1'') (js ''AAAA'') =
     Inr \<lparr>enc_ciphertext = bufferToBase64 ct_bom, enc_iv = bufferToBase64 iv0\<rparr>"
    using encrypt_returns[OF _ n(2) n(3) salt_AAAA, of "0xFEFF # js ''hi''" toy_crypto iv0]
    by (simp only: toy_encrypt_bom) simp
  have b2: "decrypt toy_crypto (bufferToBase64 ct_bom) (bufferToBase64 iv0) (js ''p1'') (js ''AAAA'') =
     Inr \<lparr>text_out = js ''hi'', success = True\<rparr>"
    using roundtrip_any_text[OF toy_aead_correct _ n(2) n(3) salt_AAAA n(5), of "0xFEFF # js ''hi''"]
    by (simp add: b1 text_bom)
  have c1: "encrypt toy_crypto iv0 [0xD800] (js ''p1'') (js ''AAAA'') =
     Inr \<lparr>enc_ciphertext = bufferToBase64 ct_lone, enc_iv = bufferToBase64 iv0\<rparr>"
    using encrypt_returns[OF _ n(2) n(3) salt_AAAA, of "[0xD800]" toy_crypto iv0]
    by (simp only: toy_encrypt_lone) simp
  have c2: "decrypt toy_crypto (bufferToBase64 ct_lone) (bufferToBase64 iv0) (js ''p1'') (js ''AAAA'') =
     Inr \<lparr>text_out = [0xFFFD], success = True\<rparr>"
    using roundtrip_any_text[OF toy_aead_correct _ n(2) n(3) salt_AAAA n(5), of "[0xD800]"]
    by (simp add: c1 text_lone_surrogate)
  have d: "js ''hi'' \<noteq> 0xFEFF # js ''hi''" by (simp add: js_def)
  show ?thesis by (intro conjI a b1 b2 c1 c2 d)
qed

lemma decrypt_missing:
  "ciphertextB64 = [] \<or> ivB64 = [] \<or> passkey = [] \<or> saltBase64 = [] \<Longrightarrow>
   decrypt P ciphertextB64 ivB64 passkey saltBase64 = Inr \<lparr>text_out = missing_text, success = False\<rparr>"
  by (simp add: decrypt_def)

lemma try_decrypt_malformed_ciphertext:
  "base64ToBuffer ciphertextB64 = None \<Longrightarrow>
   \<exists>e. try_decrypt P ciphertextB64 ivB64 passkey saltBase64 = Inl e"
  by (simp add: try_decrypt_def Let_def split: option.splits)

lemma decrypt_throws:
  assumes "ciphertextB64 \<noteq> []" "ivB64 \<noteq> []" "passkey \<noteq> []" "saltBase64 \<noteq> []"
      and "base64ToBuffer ciphertextB64 = None"
  shows "decrypt P ciphertextB64 ivB64 passkey saltBase64 = Inl InvalidCharacterError"
proof -
  obtain e where "try_decrypt P ciphertextB64 ivB64 passkey saltBase64 = Inl e"
    using try_decrypt_malformed_ciphertext[OF assms(5)] by blast
  then show ?thesis using assms by (simp add: decrypt_def generateGibberish_def)
qed

text \<open>
  C2. With all four arguments present and a ciphertext that \<open>atob\<close> rejects, the
  \<open>try\<close> block throws, and so does \<open>generateGibberish\<close> in the \<open>catch\<close> block, on the
  same \<open>atob\<close> call: \<open>decrypt\<close> throws instead of returning a placeholder.
\<close>

theorem decrypt_throws_on_malformed_ciphertext:
  "decrypt P (js ''!'') (js ''AAAA'') (js ''pw'') (js ''AAAA'') = Inl InvalidCharacterError"
proof -
  have "js ''!'' \<noteq> []" "js ''AAAA'' \<noteq> []" "js ''pw'' \<noteq> []" by (simp_all add: js_def)
  then show ?thesis using not_base64 by (intro decrypt_throws)
qed

lemma gibberish_loop_nonempty: "bs \<noteq> [] \<Longrightarrow> gibberish_loop i bs \<noteq> []"
  by (cases bs) (simp_all add: Let_def)

lemma placeholder_nonempty: "placeholder bs \<noteq> []"
  by (simp add: placeholder_def Let_def gibberish_fallback_def)

lemma decrypt_failure_placeholder:
  assumes "ciphertextB64 \<noteq> []" "ivB64 \<noteq> []" "passkey \<noteq> []" "saltBase64 \<noteq> []"
      and "try_decrypt P ciphertextB64 ivB64 passkey saltBase64 = Inl e"
  shows "decrypt P ciphertextB64 ivB64 passkey saltBase64 =
     (case base64ToBuffer ciphertextB64 of
        None \<Rightarrow> Inl InvalidCharacterError
      | Some bs \<Rightarrow> Inr \<lparr>text_out = placeholder bs, success = False\<rparr>)"
  using assms by (simp add: decrypt_def generateGibberish_def split: option.splits)

text \<open>
  C7. Two calls of \<open>decrypt\<close> on the same ciphertext, with all four arguments present,
  in which AES-GCM rejects (the wrong-passphrase case: the \<open>try\<close> block ends in
  \<open>OperationError\<close>) return the same result: success false and the placeholder of the
  ciphertext bytes, which is not empty, whatever the passphrases, salts and IVs are.
\<close>

theorem wrong_key_determinism:
  assumes "ciphertextB64 \<noteq> []"
      and "ivB64 \<noteq> []" "passkey \<noteq> []" "saltBase64 \<noteq> []"
      and "ivB64' \<noteq> []" "passkey' \<noteq> []" "saltBase64' \<noteq> []"
      and "try_decrypt P ciphertextB64 ivB64 passkey saltBase64 = Inl OperationError"
      and "try_decrypt P ciphertextB64 ivB64' passkey' saltBase64' = Inl OperationError"
  shows "decrypt P ciphertextB64 ivB64 passkey saltBase64 =
           decrypt P ciphertextB64 ivB64' passkey' saltBase64' \<and>
         (case base64ToBuffer ciphertextB64 of
            None \<Rightarrow> False
          | Some bs \<Rightarrow>
              decrypt P ciphertextB64 ivB64 passkey saltBase64 =
                Inr \<lparr>text_out = placeholder bs, success = False\<rparr> \<and>
              placeholder bs \<noteq> [])"
proof -
  obtain bs where bs: "base64ToBuffer ciphertextB64 = Some bs"
    using assms(8) by (auto simp: try_decrypt_def Let_def split: option.splits)
  show ?thesis
    using assms(1-7)
    by (simp add: decrypt_failure_placeholder[OF _ _ _ _ assms(8)]
        decrypt_failure_placeholder[OF _ _ _ _ assms(9)] bs placeholder_nonempty)
qed

lemma ct0_base64: "js ''aGVsbG9wMQAAAAECAwQFBgcICQoL'' = bufferToBase64 ct0"
  by (simp add: js_def bufferToBase64_def b64_char_def b64_code_def ct0_def)

lemma iv0_base64: "js ''AQIDBAUGBwgJCgsM'' = bufferToBase64 iv0"
  by (simp add: js_def bufferToBase64_def b64_char_def b64_code_def iv0_def)

lemma encode_wrong: "encode (js ''wrong'') = [119, 114, 111, 110, 103]"
  by (simp add: encode_def js_def utf8_bytes_def to_byte_def
      is_surrogate_def is_high_surrogate_def is_low_surrogate_def)

lemma encode_other: "encode (js ''other'') = [111, 116, 104, 101, 114]"
  by (simp add: encode_def js_def utf8_bytes_def to_byte_def
      is_surrogate_def is_high_surrogate_def is_low_surrogate_def)

lemma wrong_key_rejected:
  "try_decrypt toy_crypto (js ''aGVsbG9wMQAAAAECAwQFBgcICQoL'') (js ''AQIDBAUGBwgJCgsM'')
     (js ''wrong'') (js ''AAAA'') = Inl OperationError"
  unfolding ct0_base64 iv0_base64 try_decrypt_def
  by (simp add: base64_roundtrip salt_AAAA[unfolded ct0_base64] deriveKey_def encode_wrong
      toy_crypto_def toy_tag_def ct0_def iv0_def Let_def)

lemma other_key_rejected:
  "try_decrypt toy_crypto (js ''aGVsbG9wMQAAAAECAwQFBgcICQoL'') (js ''AAAA'')
     (js ''other'') (js ''AAAA'') = Inl OperationError"
  unfolding ct0_base64 try_decrypt_def
  by (simp add: base64_roundtrip salt_AAAA deriveKey_def encode_other
      toy_crypto_def toy_tag_def ct0_def Let_def)

theorem wrong_key_determinism_witness:
  "js ''aGVsbG9wMQAAAAECAwQFBgcICQoL'' \<noteq> [] \<and>
   try_decrypt toy_crypto (js ''aGVsbG9wMQAAAAECAwQFBgcICQoL'') (js ''AQIDBAUGBwgJCgsM'')
     (js ''wrong'') (js ''AAAA'') = Inl OperationError \<and>
   try_decrypt toy_crypto (js ''aGVsbG9wMQAAAAECAwQFBgcICQoL'') (js ''AAAA'')
     (js ''other'') (js ''AAAA'') = Inl OperationError \<and>
   base64ToBuffer (js ''aGVsbG9wMQAAAAECAwQFBgcICQoL'') = Some ct0 \<and>
   decrypt toy_crypto (js ''aGVsbG9wMQAAAAECAwQFBgcICQoL'') (js ''AQIDBAUGBwgJCgsM'')
     (js ''wrong'') (js ''AAAA'') = Inr \<lparr>text_out = placeholder ct0, success = False\<rparr> \<and>
   decrypt toy_crypto (js ''aGVsbG9wMQAAAAECAwQFBgcICQoL'') (js ''AAAA'')
     (js ''other'') (js ''AAAA'') = Inr \<lparr>text_out = placeholder ct0, success = False\<rparr>"
proof -
  have n: "js ''aGVsbG9wMQAAAAECAwQFBgcICQoL'' \<noteq> []" "js ''AQIDBAUGBwgJCgsM'' \<noteq> []"
    "js ''wrong'' \<noteq> []" "js ''AAAA'' \<noteq> []" "js ''other'' \<noteq> []"
    by (simp_all add: js_def)
  have b: "base64ToBuffer (js ''aGVsbG9wMQAAAAECAwQFBgcICQoL'') = Some ct0"
    by (simp only: ct0_base64 base64_roundtrip)
  note th = wrong_key_determinism[OF n(1) n(2) n(3) n(4) n(4) n(5) n(4)
      wrong_key_rejected other_key_rejected]
  have d1: "decrypt toy_crypto (js ''aGVsbG9wMQAAAAECAwQFBgcICQoL'') (js ''AQIDBAUGBwgJCgsM'')
     (js ''wrong'') (js ''AAAA'') = Inr \<lparr>text_out = placeholder ct0, success = False\<rparr>"
    using th[THEN conjunct2] by (simp add: b)
  have d2: "decrypt toy_crypto (js ''aGVsbG9wMQAAAAECAwQFBgcICQoL'') (js ''AAAA'')
     (js ''other'') (js ''AAAA'') = Inr \<lparr>text_out = placeholder ct0, success = False\<rparr>"
    using th[THEN conjunct1] d1 by simp
  show ?thesis
    by (intro conjI n(1) wrong_key_rejected other_key_rejected b d1 d2)
qed

lemma decrypt_returns:
  assumes "base64ToBuffer ciphertextB64 = Some bs"
  shows "\<exists>r. decrypt P ciphertextB64 ivB64 passkey saltBase64 = Inr r"
  using assms by (simp add: decrypt_def generateGibberish_def split: sum.splits)

section \<open>Properties of measureStrength\<close>

lemma measureStrength_score_range:
  "0 \<le> score (measureStrength p) \<and> score (measureStrength p) \<le> 4"
  by (simp add: measureStrength_def Let_def)

text \<open>
  C9. For every input string, the empty one included, the score of
  \<open>measureStrength\<close> lies between 0 and 4, and for a non-empty input the index into
  \<open>levels\<close> is in range: label and colour are those of the level whose position is the
  score, one of the five fixed levels.
\<close>

theorem measureStrength_safe:
  "0 \<le> score (measureStrength p) \<and> score (measureStrength p) \<le> 4 \<and>
   (if p = [] then label (measureStrength p) = Some '''' \<and> color (measureStrength p) = Some ''''
    else nat (score (measureStrength p)) < length levels \<and>
         label (measureStrength p) = Some (fst (levels ! nat (score (measureStrength p)))) \<and>
         color (measureStrength p) = Some (snd (levels ! nat (score (measureStrength p)))))"
proof (cases "p = []")
  case True
  then show ?thesis by (simp add: measureStrength_def)
next
  case False
  define n where "n = max 0 (min 4 ((2 * tally p) div 5))"
  have rng: "0 \<le> n" "n \<le> 4" by (simp_all add: n_def)
  have len: "length levels = 5" by (simp add: levels_def)
  have get: "array_get levels n = Some (levels ! nat n)"
    using rng by (simp add: array_get_def len)
  have ms: "measureStrength p =
      \<lparr>score = n, label = map_option fst (array_get levels n),
       color = map_option snd (array_get levels n)\<rparr>"
    using False by (simp add: measureStrength_def Let_def n_def)
  show ?thesis using False rng by (simp add: ms get len)
qed

end
